theory Spec2Isabelle
  imports Complex_Main
begin

text \<open>
  A model of the Mail Goggles extension: the content script \<open>content.js\<close>, which wires
  the send controls of the mail page, opens the arithmetic challenge and replays the
  click after a pass, and \<open>validateSettings\<close>, which it shares with \<open>popup.js\<close>. Pure
  functions of the script are functions here; its module variables, the closures of
  its sessions, the page and the pending timers and storage reads make up a state,
  and each listener, timer callback and storage callback is a function on that state.
  The numbered claims are stated, with the property each is about, before their
  theorems.
\<close>

section \<open>JavaScript values, \<open>parseInt\<close> and number printing\<close>

text \<open>
  The values the extension reads from \<open>chrome.storage.sync\<close> and from the answer
  inputs are JSON scalars. \<open>JNum n\<close> stands for an integer-valued number (of magnitude
  below \<open>10^21\<close>, where \<open>Number.prototype.toString\<close> prints plain decimal digits);
  \<open>JNaN\<close> is the number \<open>NaN\<close>. A number read back from a string by \<open>parseInt\<close> is an
  \<open>int option\<close>, \<open>None\<close> being \<open>NaN\<close>. Strings are byte strings.
\<close>

datatype jsval = JUndefined | JNull | JBool bool | JNum int | JNaN | JStr string

type_synonym jsobj = "(string \<times> jsval) list"

definition get_prop :: "jsobj \<Rightarrow> string \<Rightarrow> jsval" where
  "get_prop obj k = (case map_of obj k of None \<Rightarrow> JUndefined | Some v \<Rightarrow> v)"

definition digit_char :: "nat \<Rightarrow> char" where
  "digit_char d = ''0123456789'' ! d"

function show_nat :: "nat \<Rightarrow> string" where
  "show_nat n = (if n < 10 then [digit_char n] else show_nat (n div 10) @ [digit_char (n mod 10)])"
  by pat_completeness auto
termination
  by (relation "measure id") auto

declare show_nat.simps [simp del]

definition show_int :: "int \<Rightarrow> string" where
  "show_int i = (if i < 0 then CHR ''-'' # show_nat (nat (- i)) else show_nat (nat i))"

fun ToString :: "jsval \<Rightarrow> string" where
  "ToString JUndefined = ''undefined''"
| "ToString JNull = ''null''"
| "ToString (JBool b) = (if b then ''true'' else ''false'')"
| "ToString (JNum n) = show_int n"
| "ToString JNaN = ''NaN''"
| "ToString (JStr s) = s"

fun Boolean :: "jsval \<Rightarrow> bool" where
  "Boolean JUndefined = False"
| "Boolean JNull = False"
| "Boolean (JBool b) = b"
| "Boolean (JNum n) = (n \<noteq> 0)"
| "Boolean JNaN = False"
| "Boolean (JStr s) = (s \<noteq> [])"

definition is_space :: "char \<Rightarrow> bool" where
  "is_space c = (c = CHR '' '' \<or> c = CHR 0x09 \<or> c = CHR 0x0A \<or> c = CHR 0x0B
     \<or> c = CHR 0x0C \<or> c = CHR 0x0D)"

definition digit_val :: "char \<Rightarrow> nat option" where
  "digit_val c = map_of
     [(CHR ''0'', 0), (CHR ''1'', 1), (CHR ''2'', 2), (CHR ''3'', 3), (CHR ''4'', 4),
      (CHR ''5'', 5), (CHR ''6'', 6), (CHR ''7'', 7), (CHR ''8'', 8), (CHR ''9'', 9),
      (CHR ''a'', 10), (CHR ''b'', 11), (CHR ''c'', 12), (CHR ''d'', 13), (CHR ''e'', 14),
      (CHR ''f'', 15), (CHR ''A'', 10), (CHR ''B'', 11), (CHR ''C'', 12), (CHR ''D'', 13),
      (CHR ''E'', 14), (CHR ''F'', 15)] c"

definition is_digit :: "nat \<Rightarrow> char \<Rightarrow> bool" where
  "is_digit r c = (case digit_val c of None \<Rightarrow> False | Some d \<Rightarrow> d < r)"

fun parse_digits :: "nat \<Rightarrow> nat \<Rightarrow> string \<Rightarrow> nat" where
  "parse_digits r acc [] = acc"
| "parse_digits r acc (c # cs) =
     (if is_digit r c then parse_digits r (acc * r + the (digit_val c)) cs else acc)"

definition parse_radix :: "nat \<Rightarrow> string \<Rightarrow> nat option" where
  "parse_radix r s =
     (case s of [] \<Rightarrow> None
      | c # cs \<Rightarrow> if is_digit r c then Some (parse_digits r 0 s) else None)"

text \<open>
  \<open>parseInt(string)\<close> with no radix argument: leading white space is skipped, one sign
  is read, a \<open>0x\<close>/\<open>0X\<close> prefix selects radix 16, and the longest prefix of digits is
  the value; no digit at all gives \<open>NaN\<close>.
\<close>

definition parseInt_str :: "string \<Rightarrow> int option" where
  "parseInt_str s =
     (let s1 = dropWhile is_space s;
          neg = (case s1 of [] \<Rightarrow> False | c # cs \<Rightarrow> c = CHR ''-'');
          s2 = (case s1 of [] \<Rightarrow> []
                | c # cs \<Rightarrow> if c = CHR ''-'' \<or> c = CHR ''+'' then cs else s1);
          hex = (take 2 s2 = ''0x'' \<or> take 2 s2 = ''0X'');
          r = (if hex then 16 else 10);
          s3 = (if hex then drop 2 s2 else s2)
      in map_option (\<lambda>n. if neg then - int n else int n) (parse_radix r s3))"

definition parseInt :: "jsval \<Rightarrow> int option" where
  "parseInt v = parseInt_str (ToString v)"

text \<open>\<open>x || d\<close> on a number \<open>x\<close>: \<open>NaN\<close> and \<open>0\<close> are falsy.\<close>

definition or_default :: "int option \<Rightarrow> int \<Rightarrow> int" where
  "or_default x d = (case x of None \<Rightarrow> d | Some n \<Rightarrow> if n = 0 then d else n)"

section \<open>Configuration\<close>

record settings =
  enabled :: bool
  nightMode :: bool
  numProblems :: int
  timeLimit :: int

definition DEFAULT_SETTINGS :: settings where
  "DEFAULT_SETTINGS = \<lparr>enabled = True, nightMode = False, numProblems = 3, timeLimit = 60\<rparr>"

definition DEFAULT_SETTINGS_obj :: jsobj where
  "DEFAULT_SETTINGS_obj =
     [(''enabled'', JBool True), (''nightMode'', JBool False),
      (''numProblems'', JNum 3), (''timeLimit'', JNum 60)]"

definition SCAN_INTERVAL :: nat where "SCAN_INTERVAL = 2000"
definition CHALLENGE_TIMEOUT :: nat where "CHALLENGE_TIMEOUT = 3000"
definition MODAL_ANIMATION_DELAY :: nat where "MODAL_ANIMATION_DELAY = 500"
definition NIGHT_START :: nat where "NIGHT_START = 22"
definition NIGHT_END :: nat where "NIGHT_END = 8"

text \<open>\<open>validateSettings\<close>, the same function in \<open>content.js\<close> and \<open>popup.js\<close>.\<close>

definition validateSettings :: "jsobj \<Rightarrow> settings" where
  "validateSettings rawSettings =
     \<lparr>enabled = Boolean (get_prop rawSettings ''enabled''),
      nightMode = Boolean (get_prop rawSettings ''nightMode''),
      numProblems = min (max (or_default (parseInt (get_prop rawSettings ''numProblems'')) 3) 1) 10,
      timeLimit = min (max (or_default (parseInt (get_prop rawSettings ''timeLimit'')) 60) 0) 3600\<rparr>"

text \<open>
  \<open>chrome.storage.sync.get(defaults, callback)\<close> hands the callback an object with the
  keys of \<open>defaults\<close>: the stored value of a key that is stored, its default otherwise.
\<close>

definition storage_get :: "jsobj \<Rightarrow> jsobj \<Rightarrow> jsobj" where
  "storage_get defaults stored =
     map (\<lambda>(k, d). (k, case map_of stored k of None \<Rightarrow> d | Some v \<Rightarrow> v)) defaults"

text \<open>\<open>shouldBeActive\<close> reads the module's settings and the local hour of day.\<close>

definition shouldBeActive :: "settings \<Rightarrow> nat \<Rightarrow> bool" where
  "shouldBeActive st hour =
     (if \<not> enabled st then False
      else if \<not> nightMode st then True
      else if \<not> (hour \<ge> NIGHT_START \<or> hour < NIGHT_END) then False
      else True)"

section \<open>Problem generator\<close>

record problem =
  question :: string
  answer :: int

text \<open>
  \<open>Math.random()\<close> is the next element of a sequence of draws, each a real in \<open>[0, 1)\<close>;
  \<open>random_int r n\<close> is \<open>Math.floor(r * n)\<close>. The multiplication sign of the prompt is
  the byte sequence the source file holds between the two operands.
\<close>

definition random_int :: "real \<Rightarrow> nat \<Rightarrow> int" where
  "random_int r n = \<lfloor>r * real n\<rfloor>"

definition times_sign :: string where
  "times_sign = [CHR 0xC3, CHR 0x83, CHR 0xE2, CHR 0x80, CHR 0x94]"

text \<open>
  \<open>generateMathProblem\<close> reads the draws from position \<open>p\<close> on and returns the problem
  with the position after its last draw. The operator index is \<open>0\<close>, \<open>1\<close> or \<open>2\<close> for
  draws in \<open>[0, 1)\<close>; the last branch stands for index \<open>2\<close>.
\<close>

definition generateMathProblem :: "(nat \<Rightarrow> real) \<Rightarrow> nat \<Rightarrow> problem \<times> nat" where
  "generateMathProblem rnd p =
     (let num1 = random_int (rnd p) 25 + 5;
          num2 = random_int (rnd (p + 1)) 25 + 5;
          operator = random_int (rnd (p + 2)) 3
      in if operator = 0 then
           (\<lparr>question = show_int num1 @ '' + '' @ show_int num2, answer = num1 + num2\<rparr>, p + 3)
         else if operator = 1 then
           (let larger = max num1 num2; smaller = min num1 num2
            in (\<lparr>question = show_int larger @ '' - '' @ show_int smaller,
                 answer = larger - smaller\<rparr>, p + 3))
         else
           (let smallNum1 = random_int (rnd (p + 3)) 12 + 2;
                smallNum2 = random_int (rnd (p + 4)) 12 + 2
            in (\<lparr>question = show_int smallNum1 @ '' '' @ times_sign @ '' '' @ show_int smallNum2,
                 answer = smallNum1 * smallNum2\<rparr>, p + 5)))"

text \<open>The loop \<open>for (i = 0; i < n; i++) currentProblems.push(generateMathProblem())\<close>.\<close>

fun generate_problems :: "(nat \<Rightarrow> real) \<Rightarrow> nat \<Rightarrow> nat \<Rightarrow> problem list \<times> nat" where
  "generate_problems rnd p 0 = ([], p)"
| "generate_problems rnd p (Suc n) =
     (let (q, p1) = generateMathProblem rnd p;
          (qs, p2) = generate_problems rnd p1 n
      in (q # qs, p2))"


section \<open>The content script as an event-driven state machine\<close>

subsection \<open>State\<close>

text \<open>
  A host control (a candidate send button). \<open>matches\<close> says that some selector of
  \<open>SEND_BUTTON_SELECTORS\<close> finds it and that it passes the visible-send-button test;
  \<open>gadiProtected\<close> is \<open>dataset.gadiProtected\<close> (\<open>None\<close> when the attribute is absent);
  \<open>hooks\<close> counts the click listeners the script has added to it; \<open>delivered\<close> counts
  the click events that reached the host page's own handling of the control.
\<close>

record button =
  matches :: bool
  gadiProtected :: "string option"
  hooks :: nat
  delivered :: nat

definition truthy :: "string option \<Rightarrow> bool" where
  "truthy v = (case v of None \<Rightarrow> False | Some x \<Rightarrow> x \<noteq> [])"

text \<open>
  The four border colours the script gives an answer input: \<open>#e5e7eb\<close>, \<open>#3b82f6\<close>,
  \<open>#10b981\<close> and \<open>#ef4444\<close>.
\<close>

datatype border = Neutral | Focused | Good | Bad

record input_el =
  ivalue :: string
  correct :: string
  borderColor :: border
  validateTimeout :: "nat option"

text \<open>
  One call of \<open>showMathChallenge\<close>: the variables of its closure. \<open>onSuccess\<close> is the
  button whose hook passed the callback; \<open>focused\<close> is the answer input that has the
  focus. \<open>successCalls\<close> and \<open>replayCalls\<close> count how often the success callback, and
  the re-click it schedules, have run for this session.
\<close>

record session =
  currentSettings :: settings
  onSuccess :: nat
  timeRemaining :: int
  timerInterval :: "nat option"
  currentProblems :: "problem list"
  answerInputs :: "input_el list"
  questionDivs :: "string list"
  errorText :: string
  errorShown :: bool
  submitText :: string
  focused :: "nat option"
  successCalls :: nat
  replayCalls :: nat

text \<open>The callbacks the script hands to \<open>setTimeout\<close> and \<open>setInterval\<close>.\<close>

datatype task =
    Scan
  | Tick nat
  | HideError nat
  | Validate nat nat
  | FocusFirst nat
  | Teardown nat
  | Replay nat
  | Rearm nat

datatype timer = Timer (handle: nat) (due: nat) (period: "nat option") (job: task)

text \<open>What follows the promise of a \<open>loadSettings()\<close> call.\<close>

datatype cont = AfterInit | AfterClick nat | NoCont

record state =
  now :: nat
  clock0 :: nat
  chromeStorage :: bool
  onChangedListener :: bool
  challengeActive :: bool
  settings :: settings
  buttons :: "button list"
  sessions :: "session list"
  document :: "nat list"
  timers :: "timer list"
  nextHandle :: nat
  pending :: "cont list"
  rnd :: "nat \<Rightarrow> real"
  rpos :: nat

text \<open>
  \<open>now\<close> is the time in milliseconds since the script started and \<open>clock0\<close> the local
  time of day, in milliseconds, at that moment. \<open>sessions\<close> keeps every closure of
  \<open>showMathChallenge\<close> ever created (timers refer to them by index); \<open>document\<close> lists the
  sessions whose backdrop is attached to the page, in document order. \<open>pending\<close> lists
  the storage reads in flight. What no handler reads back is left out: the label of
  the countdown, the backgrounds and shadows of the inputs, the hover effects of the
  submit button, the console log.
\<close>

definition getHours :: "state \<Rightarrow> nat" where
  "getHours s = ((clock0 s + now s) div 3600000) mod 24"

subsection \<open>Timers\<close>

text \<open>
  A timer has the handle \<open>setTimeout\<close> or \<open>setInterval\<close> returned for it. Handles count
  from 1, as the browser's do, so the test \<open>if (timerInterval)\<close> holds exactly when
  the session has set its interval: \<open>clearTimer\<close> takes the variable that holds the
  handle, \<open>None\<close> when it was never set.
\<close>

definition setTimeout :: "task \<Rightarrow> nat \<Rightarrow> state \<Rightarrow> state" where
  "setTimeout j d s =
     s\<lparr>timers := timers s @ [Timer (nextHandle s) (now s + d) None j],
       nextHandle := nextHandle s + 1\<rparr>"

definition setInterval :: "task \<Rightarrow> nat \<Rightarrow> state \<Rightarrow> state" where
  "setInterval j d s =
     s\<lparr>timers := timers s @ [Timer (nextHandle s) (now s + d) (Some d) j],
       nextHandle := nextHandle s + 1\<rparr>"

definition clearTimer :: "nat option \<Rightarrow> state \<Rightarrow> state" where
  "clearTimer h s =
     (case h of None \<Rightarrow> s
      | Some k \<Rightarrow> s\<lparr>timers := filter (\<lambda>u. handle u \<noteq> k) (timers s)\<rparr>)"

definition upd_session :: "nat \<Rightarrow> (session \<Rightarrow> session) \<Rightarrow> state \<Rightarrow> state" where
  "upd_session sid f s = s\<lparr>sessions := (sessions s)[sid := f (sessions s ! sid)]\<rparr>"

definition upd_input :: "nat \<Rightarrow> (input_el \<Rightarrow> input_el) \<Rightarrow> session \<Rightarrow> session" where
  "upd_input i f x = x\<lparr>answerInputs := (answerInputs x)[i := f (answerInputs x ! i)]\<rparr>"


definition upd_button :: "nat \<Rightarrow> (button \<Rightarrow> button) \<Rightarrow> state \<Rightarrow> state" where
  "upd_button b f s = s\<lparr>buttons := (buttons s)[b := f (buttons s ! b)]\<rparr>"

subsection \<open>The answer inputs\<close>

text \<open>\<open>a === b\<close> and \<open>a !== b\<close> on numbers (\<open>NaN\<close> differs from everything), and \<open>isNaN\<close>.\<close>

definition strict_eq :: "int option \<Rightarrow> int option \<Rightarrow> bool" where
  "strict_eq a b =
     (case a of None \<Rightarrow> False | Some x \<Rightarrow> (case b of None \<Rightarrow> False | Some y \<Rightarrow> x = y))"

definition strict_ne :: "int option \<Rightarrow> int option \<Rightarrow> bool" where
  "strict_ne a b = (if strict_eq a b then False else True)"

definition isNaN :: "int option \<Rightarrow> bool" where
  "isNaN a = (case a of None \<Rightarrow> True | Some x \<Rightarrow> False)"

definition validateInput :: "input_el \<Rightarrow> input_el" where
  "validateInput inputEl =
     (let userAnswer = parseInt_str (ivalue inputEl);
          correctAnswer = parseInt_str (correct inputEl)
      in if ivalue inputEl = [] then inputEl\<lparr>borderColor := Neutral\<rparr>
         else if strict_eq userAnswer correctAnswer then inputEl\<lparr>borderColor := Good\<rparr>
         else inputEl\<lparr>borderColor := Bad\<rparr>)"

text \<open>
  The browser moves the focus among the answer inputs of a session (\<open>None\<close>: to some
  other element): the input that loses it gets a \<open>blur\<close> event, whose listener is
  \<open>validateInput\<close>; the input that gains it gets a \<open>focus\<close> event, whose listener turns
  the border blue. A call of \<open>element.focus()\<close> moves the focus only when the element
  is in the document.
\<close>

definition move_focus :: "nat \<Rightarrow> nat option \<Rightarrow> state \<Rightarrow> state" where
  "move_focus sid tgt s =
     (if focused (sessions s ! sid) = tgt then s
      else
        let s1 = (case focused (sessions s ! sid) of None \<Rightarrow> s
                  | Some j \<Rightarrow> upd_session sid (upd_input j validateInput) s);
            s2 = (case tgt of None \<Rightarrow> s1
                  | Some i \<Rightarrow> upd_session sid (upd_input i (\<lambda>e. e\<lparr>borderColor := Focused\<rparr>)) s1)
        in upd_session sid (\<lambda>x. x\<lparr>focused := tgt\<rparr>) s2)"

definition focus_call :: "nat \<Rightarrow> nat \<Rightarrow> state \<Rightarrow> state" where
  "focus_call sid i s = (if sid \<in> set (document s) then move_focus sid (Some i) s else s)"

text \<open>
  Each answer input is created with \<open>input.type = 'number'\<close>. Whatever the user leaves
  in such a field, the \<open>value\<close> the script reads is that text when it is a valid
  floating-point number of the HTML standard (an optional \<open>-\<close>; then digits, digits
  with a fraction, or a fraction alone; then an optional exponent), and the empty
  string otherwise.
\<close>

definition valid_exponent :: "string \<Rightarrow> bool" where
  "valid_exponent s =
     (case s of [] \<Rightarrow> True
      | c # cs \<Rightarrow>
          (c = CHR ''e'' \<or> c = CHR ''E'') \<and>
          (let ds = (case cs of [] \<Rightarrow> []
                     | d # ds \<Rightarrow> if d = CHR ''-'' \<or> d = CHR ''+'' then ds else cs)
           in ds \<noteq> [] \<and> list_all (is_digit 10) ds))"

definition valid_float :: "string \<Rightarrow> bool" where
  "valid_float s =
     (let t = (case s of [] \<Rightarrow> [] | c # cs \<Rightarrow> if c = CHR ''-'' then cs else s);
          whole = takeWhile (is_digit 10) t;
          rest = dropWhile (is_digit 10) t
      in case rest of
           [] \<Rightarrow> whole \<noteq> []
         | c # cs \<Rightarrow>
             if c = CHR ''.'' then
               takeWhile (is_digit 10) cs \<noteq> [] \<and> valid_exponent (dropWhile (is_digit 10) cs)
             else whole \<noteq> [] \<and> valid_exponent rest)"

definition number_value :: "string \<Rightarrow> string" where
  "number_value typed = (if valid_float typed then typed else [])"

text \<open>The \<open>input\<close> listener, after the user has changed the value of input \<open>i\<close> to \<open>v\<close>.\<close>

definition on_input :: "nat \<Rightarrow> nat \<Rightarrow> string \<Rightarrow> state \<Rightarrow> state" where
  "on_input sid i v s =
     (let s1 = upd_session sid (upd_input i (\<lambda>e. e\<lparr>ivalue := v\<rparr>)) s;
          s2 = clearTimer (validateTimeout (answerInputs (sessions s1 ! sid) ! i)) s1;
          s3 = upd_session sid (upd_input i (\<lambda>e. e\<lparr>validateTimeout := Some (nextHandle s2)\<rparr>)) s2
      in setTimeout (Validate sid i) 300 s3)"

subsection \<open>\<open>checkAllAnswers\<close>\<close>

fun check_loop :: "bool \<Rightarrow> input_el list \<Rightarrow> bool" where
  "check_loop allCorrect [] = allCorrect"
| "check_loop allCorrect (input # rest) =
     (let userAnswer = parseInt_str (ivalue input);
          correctAnswer = parseInt_str (correct input)
      in check_loop (if strict_ne userAnswer correctAnswer \<or> isNaN userAnswer then False
                     else allCorrect) rest)"

fun first_bad :: "nat \<Rightarrow> input_el list \<Rightarrow> nat option" where
  "first_bad k [] = None"
| "first_bad k (e # es) = (if borderColor e = Bad then Some k else first_bad (Suc k) es)"

definition checkAllAnswers :: "nat \<Rightarrow> state \<Rightarrow> state" where
  "checkAllAnswers sid s =
     (if check_loop True (answerInputs (sessions s ! sid)) then
        setTimeout (Teardown sid) 800
          (upd_session sid (\<lambda>x. x\<lparr>submitText := ''Sending...''\<rparr>)
             (clearTimer (timerInterval (sessions s ! sid)) s))
      else
        let s1 = upd_session sid
                   (\<lambda>x. x\<lparr>errorText := ''Please check your answers and try again.'',
                          errorShown := True\<rparr>) s;
            s2 = (case first_bad 0 (answerInputs (sessions s ! sid)) of None \<Rightarrow> s1
                  | Some i \<Rightarrow> focus_call sid i s1)
        in setTimeout (HideError sid) 3000 s2)"

text \<open>The \<open>keydown\<close> listener of input \<open>i\<close> for the Enter key.\<close>

definition on_enter :: "nat \<Rightarrow> nat \<Rightarrow> state \<Rightarrow> state" where
  "on_enter sid i s =
     (let s1 = upd_session sid (upd_input i validateInput) s
      in if i + 1 < length (answerInputs (sessions s ! sid)) then focus_call sid (i + 1) s1
         else checkAllAnswers sid s1)"

text \<open>The click listener of the backdrop, for a click on the backdrop itself.\<close>

definition on_backdrop :: "nat \<Rightarrow> state \<Rightarrow> state" where
  "on_backdrop sid s =
     (let s1 = clearTimer (timerInterval (sessions s ! sid)) s
      in s1\<lparr>document := removeAll sid (document s1), challengeActive := False\<rparr>)"

subsection \<open>Countdown and expiry\<close>

fun refresh_inputs :: "problem list \<Rightarrow> input_el list \<Rightarrow> input_el list" where
  "refresh_inputs (q # qs) (e # es) =
     e\<lparr>correct := show_int (answer q), ivalue := [], borderColor := Neutral\<rparr> # refresh_inputs qs es"
| "refresh_inputs qs es = es"

fun refresh_questions :: "problem list \<Rightarrow> string list \<Rightarrow> string list" where
  "refresh_questions (q # qs) (d # ds) = (question q @ '' = ?'') # refresh_questions qs ds"
| "refresh_questions qs ds = ds"

definition handleTimerExpiration :: "nat \<Rightarrow> state \<Rightarrow> state" where
  "handleTimerExpiration sid s =
     (let cs = currentSettings (sessions s ! sid);
          (ps, p1) = generate_problems (rnd s) (rpos s) (nat (numProblems cs));
          s1 = upd_session sid
                 (\<lambda>x. x\<lparr>currentProblems := ps,
                        questionDivs := refresh_questions ps (questionDivs x),
                        answerInputs := refresh_inputs ps (answerInputs x),
                        errorText := ''Time's up! New problems generated.'',
                        errorShown := True\<rparr>) (s\<lparr>rpos := p1\<rparr>);
          s2 = setTimeout (HideError sid) 2000 s1
      in upd_session sid (\<lambda>x. x\<lparr>timeRemaining := timeLimit cs\<rparr>) s2)"

definition tick :: "nat \<Rightarrow> state \<Rightarrow> state" where
  "tick sid s =
     (let s1 = upd_session sid (\<lambda>x. x\<lparr>timeRemaining := timeRemaining x - 1\<rparr>) s
      in if timeRemaining (sessions s1 ! sid) \<le> 0 then handleTimerExpiration sid s1 else s1)"

subsection \<open>\<open>showMathChallenge\<close>\<close>

definition new_input :: "problem \<Rightarrow> input_el" where
  "new_input q =
     \<lparr>ivalue = [], correct = show_int (answer q), borderColor = Neutral, validateTimeout = None\<rparr>"

definition showMathChallenge :: "settings \<Rightarrow> nat \<Rightarrow> state \<Rightarrow> state" where
  "showMathChallenge cs b s =
     (if challengeActive s then s
      else
        let s1 = s\<lparr>challengeActive := True, document := drop 1 (document s)\<rparr>;
            sid = length (sessions s1);
            (ps, p1) = generate_problems (rnd s1) (rpos s1) (nat (numProblems cs));
            s2 = (if timeLimit cs > 0 then setInterval (Tick sid) 1000 s1 else s1);
            x = \<lparr>currentSettings = cs, onSuccess = b, timeRemaining = timeLimit cs,
                 timerInterval = (if timeLimit cs > 0 then Some (nextHandle s1) else None),
                 currentProblems = ps, answerInputs = map new_input ps,
                 questionDivs = map (\<lambda>q. question q @ '' = ?'') ps,
                 errorText = [], errorShown = False, submitText = ''Send Email'',
                 focused = None, successCalls = 0, replayCalls = 0\<rparr>;
            s3 = s2\<lparr>sessions := sessions s2 @ [x], document := document s2 @ [sid], rpos := p1\<rparr>
        in setTimeout (FocusFirst sid) 300 s3)"


subsection \<open>Wiring, interception and replay\<close>

text \<open>
  \<open>findAndProtectSendButtons\<close>: a control already marked is skipped, also when a later
  selector finds it again, so one scan marks and wires each qualifying control once.
\<close>

definition findAndProtectSendButtons :: "state \<Rightarrow> state" where
  "findAndProtectSendButtons s =
     s\<lparr>buttons :=
         map (\<lambda>u. if truthy (gadiProtected u) then u
                  else if \<not> matches u then u
                  else u\<lparr>gadiProtected := Some ''true'', hooks := hooks u + 1\<rparr>) (buttons s)\<rparr>"

text \<open>
  \<open>loadSettings()\<close> up to the return of its promise. With the storage API present the
  read is in flight and the promise is pending (the continuation \<open>c\<close> waits in
  \<open>pending\<close>); with the API missing or throwing the promise is resolved at once, with
  the module's settings unchanged. The result says whether the promise is resolved.
\<close>

definition loadSettings :: "cont \<Rightarrow> state \<Rightarrow> bool \<times> state" where
  "loadSettings c s =
     (if chromeStorage s then (False, s\<lparr>pending := pending s @ [c]\<rparr>) else (True, s))"

text \<open>
  The \<open>then\<close> callback of the hook, with its calls on the event left out: this is the
  callback run once the event's dispatch is over, when \<open>preventDefault\<close>,
  \<open>stopPropagation\<close> and \<open>stopImmediatePropagation\<close> change nothing any more.
\<close>

definition then_callback :: "nat \<Rightarrow> state \<Rightarrow> state" where
  "then_callback b s =
     (if \<not> shouldBeActive (settings s) (getHours s) then s
      else showMathChallenge (settings s) b s)"

text \<open>
  A click of the user on control \<open>b\<close>. Its \<open>n\<close> hooks run in turn. After each listener
  of a user's click the microtasks run, so the \<open>then\<close> callback of a promise that
  \<open>loadSettings\<close> resolved at once runs while the event is still being dispatched:
  there \<open>stopImmediatePropagation\<close> keeps the event from the remaining listeners and
  from the host (the result \<open>True\<close>). The callback of a pending promise runs when the
  storage replies, after the dispatch.
\<close>

fun user_hooks :: "nat \<Rightarrow> nat \<Rightarrow> state \<Rightarrow> bool \<times> state" where
  "user_hooks 0 b s = (False, s)"
| "user_hooks (Suc n) b s =
     (if challengeActive s then user_hooks n b s
      else
        let (resolved, s1) = loadSettings (AfterClick b) s
        in if resolved \<and> shouldBeActive (settings s1) (getHours s1)
           then (True, showMathChallenge (settings s1) b s1)
           else user_hooks n b s1)"

definition user_click :: "nat \<Rightarrow> state \<Rightarrow> state" where
  "user_click b s =
     (let (stopped, s1) = user_hooks (hooks (buttons s ! b)) b s
      in if stopped then s1 else upd_button b (\<lambda>u. u\<lparr>delivered := delivered u + 1\<rparr>) s1)"

text \<open>
  \<open>button.click()\<close> called by the script: the listeners run one after the other with
  no microtask between them, then the host's handling; the result counts the \<open>then\<close>
  callbacks left to run after the calling task.
\<close>

fun script_hooks :: "nat \<Rightarrow> nat \<Rightarrow> state \<Rightarrow> nat \<times> state" where
  "script_hooks 0 b s = (0, s)"
| "script_hooks (Suc n) b s =
     (if challengeActive s then script_hooks n b s
      else
        let (resolved, s1) = loadSettings (AfterClick b) s;
            (k, s2) = script_hooks n b s1
        in (if resolved then Suc k else k, s2))"

fun microtasks :: "nat \<Rightarrow> nat \<Rightarrow> state \<Rightarrow> state" where
  "microtasks 0 b s = s"
| "microtasks (Suc k) b s = microtasks k b (then_callback b s)"

text \<open>The success callback the hook passes to \<open>showMathChallenge\<close>, and its two timers.\<close>

definition success_callback :: "nat \<Rightarrow> state \<Rightarrow> state" where
  "success_callback sid s =
     setTimeout (Replay sid) MODAL_ANIMATION_DELAY
       (upd_session sid (\<lambda>x. x\<lparr>successCalls := successCalls x + 1\<rparr>)
          (s\<lparr>challengeActive := True\<rparr>))"

definition replay :: "nat \<Rightarrow> state \<Rightarrow> state" where
  "replay sid s =
     (let b = onSuccess (sessions s ! sid);
          s1 = upd_button b (\<lambda>u. u\<lparr>gadiProtected := Some []\<rparr>)
                 (upd_session sid (\<lambda>x. x\<lparr>replayCalls := replayCalls x + 1\<rparr>) s);
          (k, s2) = script_hooks (hooks (buttons s1 ! b)) b s1;
          s3 = upd_button b (\<lambda>u. u\<lparr>delivered := delivered u + 1\<rparr>) s2;
          s4 = setTimeout (Rearm sid) CHALLENGE_TIMEOUT s3
      in microtasks k b s4)"

definition rearm :: "nat \<Rightarrow> state \<Rightarrow> state" where
  "rearm sid s =
     upd_button (onSuccess (sessions s ! sid)) (\<lambda>u. u\<lparr>gadiProtected := Some ''true''\<rparr>)
       (s\<lparr>challengeActive := False\<rparr>)"

text \<open>The delayed part of the pass path of \<open>checkAllAnswers\<close>.\<close>

definition teardown :: "nat \<Rightarrow> state \<Rightarrow> state" where
  "teardown sid s =
     success_callback sid (s\<lparr>document := removeAll sid (document s), challengeActive := False\<rparr>)"

definition run_task :: "task \<Rightarrow> state \<Rightarrow> state" where
  "run_task j s =
     (case j of
        Scan \<Rightarrow> findAndProtectSendButtons s
      | Tick sid \<Rightarrow> tick sid s
      | HideError sid \<Rightarrow> upd_session sid (\<lambda>x. x\<lparr>errorShown := False\<rparr>) s
      | Validate sid i \<Rightarrow> upd_session sid (upd_input i validateInput) s
      | FocusFirst sid \<Rightarrow>
          (if answerInputs (sessions s ! sid) = [] then s else focus_call sid 0 s)
      | Teardown sid \<Rightarrow> teardown sid s
      | Replay sid \<Rightarrow> replay sid s
      | Rearm sid \<Rightarrow> rearm sid s)"

subsection \<open>Storage replies and start of the script\<close>

definition after_init :: "state \<Rightarrow> state" where
  "after_init s = setInterval Scan SCAN_INTERVAL (findAndProtectSendButtons s)"

text \<open>
  The callback of \<open>chrome.storage.sync.get\<close> for the \<open>k\<close>-th read in flight: \<open>Inl\<close> is a
  reply with \<open>chrome.runtime.lastError\<close> set, \<open>Inr stored\<close> a reply from a store that
  holds \<open>stored\<close>. The promise resolves and its continuation runs.
\<close>

definition storage_reply :: "nat \<Rightarrow> string + jsobj \<Rightarrow> state \<Rightarrow> state" where
  "storage_reply k res s =
     (let c = pending s ! k;
          s1 = s\<lparr>pending := take k (pending s) @ drop (Suc k) (pending s)\<rparr>;
          s2 = (case res of Inl err \<Rightarrow> s1
                | Inr stored \<Rightarrow>
                    s1\<lparr>settings := validateSettings (storage_get DEFAULT_SETTINGS_obj stored)\<rparr>)
      in case c of AfterInit \<Rightarrow> after_init s2 | AfterClick b \<Rightarrow> then_callback b s2 | NoCont \<Rightarrow> s2)"

definition startup :: "bool \<Rightarrow> button list \<Rightarrow> nat \<Rightarrow> (nat \<Rightarrow> real) \<Rightarrow> state" where
  "startup api bs c0 r =
     (let s0 = \<lparr>now = 0, clock0 = c0, chromeStorage = api, onChangedListener = api,
                challengeActive = False, settings = DEFAULT_SETTINGS, buttons = bs,
                sessions = [], document = [], timers = [], nextHandle = 1, pending = [],
                rnd = r, rpos = 0\<rparr>;
          (resolved, s1) = loadSettings AfterInit s0
      in if resolved then after_init s1 else s1)"

subsection \<open>Events and steps\<close>

datatype event =
    Click nat
  | StorageReply nat "string + jsobj"
  | StorageChanged
  | SetApi bool
  | TypeAnswer nat nat string
  | FocusInput nat nat
  | BlurInput nat
  | PressEnter nat nat
  | ClickSubmit nat
  | ClickBackdrop nat

definition attached :: "nat \<Rightarrow> state \<Rightarrow> bool" where
  "attached sid s = (sid \<in> set (document s) \<and> sid < length (sessions s))"

definition has_input :: "nat \<Rightarrow> nat \<Rightarrow> state \<Rightarrow> bool" where
  "has_input sid i s = (attached sid s \<and> i < length (answerInputs (sessions s ! sid)))"

text \<open>
  An event the page cannot deliver in the state (a control or an input that is not
  there, a session that is not on the page, a reply to no read) gives \<open>None\<close>.
  \<open>TypeAnswer sid i typed\<close> is the user leaving the text \<open>typed\<close> in input \<open>i\<close>: the
  listener finds the value of the number input.
\<close>

definition handle_event :: "event \<Rightarrow> state \<Rightarrow> state option" where
  "handle_event e s =
     (case e of
        Click b \<Rightarrow> if b < length (buttons s) then Some (user_click b s) else None
      | StorageReply k res \<Rightarrow>
          if k < length (pending s) then Some (storage_reply k res s) else None
      | StorageChanged \<Rightarrow>
          if onChangedListener s then Some (snd (loadSettings NoCont s)) else None
      | SetApi a \<Rightarrow> Some (s\<lparr>chromeStorage := a\<rparr>)
      | TypeAnswer sid i typed \<Rightarrow>
          if has_input sid i s then Some (on_input sid i (number_value typed) s) else None
      | FocusInput sid i \<Rightarrow>
          if has_input sid i s then Some (move_focus sid (Some i) s) else None
      | BlurInput sid \<Rightarrow> if attached sid s then Some (move_focus sid None s) else None
      | PressEnter sid i \<Rightarrow> if has_input sid i s then Some (on_enter sid i s) else None
      | ClickSubmit sid \<Rightarrow> if attached sid s then Some (checkAllAnswers sid s) else None
      | ClickBackdrop sid \<Rightarrow> if attached sid s then Some (on_backdrop sid s) else None)"

text \<open>
  Timers fire at their due time, the earliest first and, among equals, the one set
  first. An interval timer is set again one period later before its callback runs.
\<close>

fun earliest :: "timer \<Rightarrow> timer list \<Rightarrow> timer" where
  "earliest u [] = u"
| "earliest u (v # vs) = earliest (if due v < due u then v else u) vs"

definition fire :: "state \<Rightarrow> state option" where
  "fire s =
     (case timers s of [] \<Rightarrow> None
      | v # vs \<Rightarrow>
          let u = earliest v vs;
              others = filter (\<lambda>w. handle w \<noteq> handle u) (timers s);
              s1 = s\<lparr>now := max (now s) (due u),
                     timers := (case period u of None \<Rightarrow> others
                                | Some d \<Rightarrow> others @ [Timer (handle u) (due u + d) (Some d) (job u)])\<rparr>
          in Some (run_task (job u) s1))"

text \<open>
  A step is the firing of the next timer, or an event at time \<open>t\<close>: time does not run
  backwards, and no timer due before \<open>t\<close> is passed over.
\<close>

datatype action = Fire | At nat event

fun step :: "action \<Rightarrow> state \<Rightarrow> state option" where
  "step Fire s = fire s"
| "step (At t e) s =
     (if t < now s \<or> list_ex (\<lambda>u. due u < t) (timers s) then None
      else handle_event e (s\<lparr>now := t\<rparr>))"

fun run :: "action list \<Rightarrow> state \<Rightarrow> state option" where
  "run [] s = Some s"
| "run (a # as) s = (case step a s of None \<Rightarrow> None | Some s1 \<Rightarrow> run as s1)"

section \<open>Concrete inputs\<close>

text \<open>
  A page with one qualifying send control, a store that holds a problem count of one,
  and two sequences of draws.
\<close>

definition send_button :: button where
  "send_button = \<lparr>matches = True, gadiProtected = None, hooks = 0, delivered = 0\<rparr>"

definition one_problem :: jsobj where
  "one_problem = [(''numProblems'', JNum 1)]"

definition half :: "nat \<Rightarrow> real" where
  "half i = 1 / 2"

definition draws :: "nat \<Rightarrow> real" where
  "draws i = (if i = 0 then 9 / 10 else if i = 1 then 1 / 10 else 1 / 2)"

definition zero_limit :: jsobj where
  "zero_limit =
     [(''enabled'', JBool True), (''nightMode'', JBool False),
      (''numProblems'', JNum 3), (''timeLimit'', JNum 0)]"

text \<open>
  The page after the script has started, the user has clicked the send control at
  1000 ms and the challenge has opened at 1020 ms with one problem (\<open>17 - 17\<close>);
  then the user has typed \<open>0\<close> into its input at 1500 ms.
\<close>

definition opened :: "action list" where
  "opened =
     [At 10 (StorageReply 0 (Inr one_problem)), At 1000 (Click 0),
      At 1020 (StorageReply 0 (Inr one_problem)), Fire]"

definition answered :: "action list" where
  "answered = opened @ [At 1500 (TypeAnswer 0 0 ''0''), Fire]"

definition page :: state where
  "page = startup True [send_button] 0 half"

text \<open>
  What a run shows after each of its steps: the time, the \<open>challengeActive\<close> flag, the
  sessions on the page, the storage reads in flight, how many clicks the host's
  handling has received on each control, how often the success callback and the
  re-click have run for each session, and the callbacks of the pending timers.
  \<open>None\<close> marks a step the state does not allow; the run stops there.
\<close>

record snapshot =
  clock :: nat
  flag :: bool
  on_page :: "nat list"
  reads :: "cont list"
  host_clicks :: "nat list"
  successes :: "nat list"
  replays :: "nat list"
  waiting :: "task list"

definition snapshot_of :: "state \<Rightarrow> snapshot" where
  "snapshot_of s =
     \<lparr>clock = now s, flag = challengeActive s, on_page = document s, reads = pending s,
      host_clicks = map delivered (buttons s), successes = map successCalls (sessions s),
      replays = map replayCalls (sessions s), waiting = map job (timers s)\<rparr>"

fun snapshots :: "action list \<Rightarrow> state \<Rightarrow> snapshot option list" where
  "snapshots [] s = []"
| "snapshots (a # as) s =
     (case step a s of None \<Rightarrow> [None]
      | Some s1 \<Rightarrow> Some (snapshot_of s1) # snapshots as s1)"

text \<open>
  A first run: the script starts, the user clicks the send control, the storage
  replies. A second run: the storage never replies to the read of the click. A third
  run: the user answers and activates the submit button twice, 700 ms apart, before
  the session is torn down; its continuation is a fourth run, in which the user
  clicks the send control after each of the two cooldowns has ended.
\<close>

definition first_click :: "action list" where
  "first_click =
     [At 10 (StorageReply 0 (Inr one_problem)), At 1000 (Click 0),
      At 1020 (StorageReply 0 (Inr one_problem))]"

definition no_reply :: "action list" where
  "no_reply = [At 10 (StorageReply 0 (Inr one_problem)), At 1000 (Click 0), Fire, Fire]"

definition double_submit :: "action list" where
  "double_submit =
     [At 1900 (ClickSubmit 0), Fire, At 2600 (ClickSubmit 0), Fire, Fire, Fire, Fire]"

definition second_cooldown :: "action list" where
  "second_cooldown =
     [Fire, Fire, Fire, At 6300 (Click 0), At 6320 (StorageReply 0 (Inr one_problem)),
      At 6330 (StorageReply 0 (Inr one_problem)), Fire, Fire, At 7000 (Click 0),
      At 7020 (StorageReply 0 (Inr one_problem))]"

text \<open>
  A store with one problem and a time limit of five seconds, and the run in which the
  challenge opens at 1020 ms and nobody answers: at its end the countdown, due at
  6020 ms, is the next timer, with one second remaining.
\<close>

definition five_seconds :: jsobj where
  "five_seconds = [(''numProblems'', JNum 1), (''timeLimit'', JNum 5)]"

definition expiring :: "action list" where
  "expiring =
     [At 10 (StorageReply 0 (Inr five_seconds)), At 1000 (Click 0),
      At 1020 (StorageReply 0 (Inr five_seconds)),
      Fire, Fire, Fire, Fire, Fire, Fire, Fire, Fire]"

definition varied_page :: state where
  "varied_page = startup True [send_button] 0 draws"

text \<open>
  A run in which the user types a wrong answer at 1500 ms and dismisses the challenge
  at 1600 ms, before the debounce delay of 300 ms has passed; \<open>input_borders\<close> reads the
  border colours of the answer inputs of a session.
\<close>

definition typed_wrong :: "action list" where
  "typed_wrong = opened @ [At 1500 (TypeAnswer 0 0 ''5''), At 1600 (ClickBackdrop 0)]"

definition cancelled :: "action list" where
  "cancelled = typed_wrong @ [Fire]"

definition input_borders :: "nat \<Rightarrow> state \<Rightarrow> border list" where
  "input_borders sid s = map borderColor (answerInputs (sessions s ! sid))"

text \<open>
  A run with one submission, followed by the replay, the cooldown and the next click
  of the user; and a page on which the storage API is missing.
\<close>

definition single_submit :: "action list" where
  "single_submit =
     [At 1900 (ClickSubmit 0), Fire, Fire, Fire, Fire, Fire, Fire, At 6300 (Click 0),
      At 6320 (StorageReply 0 (Inr one_problem)), At 6330 (StorageReply 0 (Inr one_problem))]"

definition offline_page :: state where
  "offline_page = startup False [send_button] 0 half"

definition error_reply :: "action list" where
  "error_reply =
     [At 10 (StorageReply 0 (Inr one_problem)), At 1000 (Click 0),
      At 1020 (StorageReply 0 (Inl ''quota exceeded''))]"

section \<open>Invariants of the reachable states\<close>

text \<open>
  A session is consistent when it holds as many problems as its settings ask for, each
  answer input carries its problem's answer in \<open>dataset.correct\<close>, and each prompt
  shows its problem's question. A countdown timer belongs to a session that exists, is
  the interval that session holds in \<open>timerInterval\<close>, and exists only for a positive
  time limit.
\<close>

definition session_ok :: "session \<Rightarrow> bool" where
  "session_ok x =
     (length (currentProblems x) = nat (numProblems (currentSettings x)) \<and>
      map correct (answerInputs x) = map (\<lambda>q. show_int (answer q)) (currentProblems x) \<and>
      questionDivs x = map (\<lambda>q. question q @ '' = ?'') (currentProblems x))"

definition static :: "session \<Rightarrow> nat option \<times> int" where
  "static x = (timerInterval x, timeLimit (currentSettings x))"

definition tick_ok :: "session list \<Rightarrow> timer \<Rightarrow> bool" where
  "tick_ok xs u =
     (case job u of
        Tick sid \<Rightarrow>
          sid < length xs \<and> fst (static (xs ! sid)) = Some (handle u) \<and>
          0 < snd (static (xs ! sid)) \<and> period u = Some 1000
      | _ \<Rightarrow> True)"

definition inv :: "state \<Rightarrow> bool" where
  "inv s = (list_all session_ok (sessions s) \<and> list_all (tick_ok (sessions s)) (timers s))"

text \<open>
  Two sessions with the same content: they differ at most in the border colours, the
  debounce handles and the focus of their inputs.
\<close>

definition same_content :: "session \<Rightarrow> session \<Rightarrow> bool" where
  "same_content x y =
     (currentProblems y = currentProblems x \<and> questionDivs y = questionDivs x \<and>
      map ivalue (answerInputs y) = map ivalue (answerInputs x) \<and>
      map correct (answerInputs y) = map correct (answerInputs x) \<and>
      errorShown y = errorShown x \<and> errorText y = errorText x \<and>
      submitText y = submitText x \<and> timeRemaining y = timeRemaining x \<and>
      successCalls y = successCalls x \<and> replayCalls y = replayCalls x \<and>
      currentSettings y = currentSettings x \<and> timerInterval y = timerInterval x)"

text \<open>No countdown timer of session \<open>sid\<close> is pending.\<close>

definition no_tick :: "nat \<Rightarrow> state \<Rightarrow> bool" where
  "no_tick sid s = (sid < length (sessions s) \<and> list_all (\<lambda>w. job w \<noteq> Tick sid) (timers s))"

text \<open>At most one backdrop is attached to the page.\<close>

definition one_backdrop :: "state \<Rightarrow> bool" where
  "one_backdrop s = (length (document s) \<le> 1)"

section \<open>Reading a prompt\<close>

text \<open>
  What a reader computes from a prompt: the prompt is split at its spaces into the
  first operand, the operator and the second operand, and the operator is applied to
  the operands. This is the reference the generator's stored answer is compared with;
  the script itself never reads a prompt back.
\<close>

fun tokens :: "string \<Rightarrow> string list" where
  "tokens [] = [[]]"
| "tokens (c # cs) =
     (if c = CHR '' '' then [] # tokens cs
      else (case tokens cs of [] \<Rightarrow> [[c]] | t # ts \<Rightarrow> (c # t) # ts))"

definition prompt_value :: "string \<Rightarrow> int option" where
  "prompt_value q =
     (case tokens q of
        [a, operator, b] \<Rightarrow>
          (case parseInt_str a of None \<Rightarrow> None
           | Some x \<Rightarrow>
               (case parseInt_str b of None \<Rightarrow> None
                | Some y \<Rightarrow>
                    if operator = ''+'' then Some (x + y)
                    else if operator = ''-'' then Some (x - y)
                    else if operator = times_sign then Some (x * y)
                    else None))
      | _ \<Rightarrow> None)"

section \<open>Printing and parsing integers\<close>

text \<open>
  \<open>parseInt\<close> reads back what number printing wrote: \<open>dataset.correct\<close>, the string of
  a problem's answer, parses to that answer.
\<close>

lemma digit_lt10_cases: "d < 10 \<Longrightarrow> d = 0 \<or> d = 1 \<or> d = 2 \<or> d = 3 \<or> d = 4 \<or> d = 5 \<or> d = 6 \<or> d = 7 \<or> d = 8 \<or> d = (9::nat)"
  by arith

lemma digit_val_digit_char: "d < 10 \<Longrightarrow> digit_val (digit_char d) = Some d"
  using digit_lt10_cases [of d] by (auto simp: digit_val_def digit_char_def)

lemma is_digit_digit_char: "d < 10 \<Longrightarrow> is_digit 10 (digit_char d)"
  by (simp add: is_digit_def digit_val_digit_char)

lemma parse_digits_append:
  "list_all (is_digit r) xs \<Longrightarrow> parse_digits r acc (xs @ ys) = parse_digits r (parse_digits r acc xs) ys"
  by (induction xs arbitrary: acc) auto

lemma show_nat_digits: "list_all (is_digit 10) (show_nat n)"
proof (induction n rule: show_nat.induct)
  case (1 n)
  show ?case
  proof (cases "n < 10")
    case True
    then show ?thesis by (subst show_nat.simps) (simp add: is_digit_digit_char)
  next
    case False
    with 1 show ?thesis by (subst show_nat.simps) (simp add: is_digit_digit_char)
  qed
qed

lemma parse_digits_show_nat: "parse_digits 10 0 (show_nat n) = n"
proof (induction n rule: show_nat.induct)
  case (1 n)
  show ?case
  proof (cases "n < 10")
    case True
    then show ?thesis
      by (subst show_nat.simps) (simp add: is_digit_digit_char digit_val_digit_char)
  next
    case False
    with 1 have ih: "parse_digits 10 0 (show_nat (n div 10)) = n div 10" by simp
    have d: "n mod 10 < 10" by simp
    show ?thesis using False
      by (subst show_nat.simps)
         (simp add: parse_digits_append show_nat_digits ih is_digit_digit_char [OF d]
            digit_val_digit_char [OF d])
  qed
qed

lemma show_nat_nonempty: "show_nat n \<noteq> []"
  by (subst show_nat.simps) simp

lemma hd_show_nat_digit: "is_digit 10 (hd (show_nat n))"
  using show_nat_digits [of n] show_nat_nonempty [of n]
  by (cases "show_nat n") auto

lemma parse_radix_show_nat: "parse_radix 10 (show_nat n) = Some n"
  using hd_show_nat_digit [of n] show_nat_nonempty [of n] parse_digits_show_nat [of n]
  by (cases "show_nat n") (auto simp: parse_radix_def)

lemma is_digit_10_facts: "is_digit 10 c \<Longrightarrow> \<not> is_space c \<and> c \<noteq> CHR ''-'' \<and> c \<noteq> CHR ''+'' \<and> c \<noteq> CHR ''x'' \<and> c \<noteq> CHR ''X''"
  by (auto simp: is_digit_def digit_val_def is_space_def split: option.splits if_splits)

lemma digits_no_hex_prefix:
  assumes "list_all (is_digit 10) s"
  shows "take 2 s \<noteq> ''0x'' \<and> take 2 s \<noteq> ''0X''"
proof (cases s)
  case Nil
  then show ?thesis by simp
next
  case (Cons c cs)
  show ?thesis
  proof (cases cs)
    case Nil
    with Cons show ?thesis by simp
  next
    case (Cons d ds)
    with \<open>s = c # cs\<close> assms have "is_digit 10 d" by simp
    from is_digit_10_facts [OF this] Cons \<open>s = c # cs\<close> show ?thesis by simp
  qed
qed

lemma parseInt_str_digits:
  assumes "list_all (is_digit 10) s" and "s \<noteq> []"
  shows "parseInt_str s = map_option int (parse_radix 10 s)"
proof -
  obtain c cs where s: "s = c # cs" using assms(2) by (cases s) auto
  have dc: "is_digit 10 c" using assms(1) s by simp
  have dw: "dropWhile is_space s = s" using is_digit_10_facts [OF dc] s by simp
  have neg: "(case s of [] \<Rightarrow> False | c # cs \<Rightarrow> c = CHR ''-'') = False"
    using is_digit_10_facts [OF dc] s by simp
  have s2: "(case s of [] \<Rightarrow> [] | c # cs \<Rightarrow> if c = CHR ''-'' \<or> c = CHR ''+'' then cs else s) = s"
    using is_digit_10_facts [OF dc] s by simp
  have nh: "(take 2 s = ''0x'' \<or> take 2 s = ''0X'') = False"
    using digits_no_hex_prefix [OF assms(1)] by simp
  show ?thesis
    unfolding parseInt_str_def dw Let_def neg s2 nh by simp
qed

lemma parseInt_str_minus_digits:
  assumes "list_all (is_digit 10) s" and "s \<noteq> []"
  shows "parseInt_str (CHR ''-'' # s) = map_option (\<lambda>n. - int n) (parse_radix 10 s)"
proof -
  have sp: "\<not> is_space CHR ''-''" by (simp add: is_space_def)
  have dw: "dropWhile is_space (CHR ''-'' # s) = CHR ''-'' # s" using sp by simp
  have nh: "(take 2 s = ''0x'' \<or> take 2 s = ''0X'') = False"
    using digits_no_hex_prefix [OF assms(1)] by simp
  show ?thesis
    using digits_no_hex_prefix [OF assms(1)] by (simp add: parseInt_str_def sp Let_def)
qed

lemma parseInt_str_show_int: "parseInt_str (show_int i) = Some i"
proof (cases "i < 0")
  case False
  then show ?thesis
    by (simp add: show_int_def parseInt_str_digits show_nat_digits show_nat_nonempty
        parse_radix_show_nat)
next
  case True
  then show ?thesis
    by (simp add: show_int_def parseInt_str_minus_digits show_nat_digits show_nat_nonempty
        parse_radix_show_nat)
qed

lemma parseInt_JNum: "parseInt (JNum n) = Some n"
  by (simp add: parseInt_def parseInt_str_show_int)

section \<open>\<open>validateSettings\<close>\<close>

lemma validateSettings_numProblems_range:
  "1 \<le> numProblems (validateSettings raw) \<and> numProblems (validateSettings raw) \<le> 10"
  by (simp add: validateSettings_def)

lemma validateSettings_timeLimit_range:
  "0 \<le> timeLimit (validateSettings raw) \<and> timeLimit (validateSettings raw) \<le> 3600"
  by (simp add: validateSettings_def)

lemma validateSettings_keeps_numProblems:
  "get_prop raw ''numProblems'' = JNum n \<Longrightarrow> 1 \<le> n \<Longrightarrow> n \<le> 10 \<Longrightarrow>
   numProblems (validateSettings raw) = n"
  by (simp add: validateSettings_def parseInt_JNum or_default_def)

lemma validateSettings_keeps_timeLimit:
  "get_prop raw ''timeLimit'' = JNum n \<Longrightarrow> 1 \<le> n \<Longrightarrow> n \<le> 3600 \<Longrightarrow>
   timeLimit (validateSettings raw) = n"
  by (simp add: validateSettings_def parseInt_JNum or_default_def)

lemma validateSettings_malformed:
  "parseInt (get_prop raw ''numProblems'') = None \<Longrightarrow> numProblems (validateSettings raw) = 3"
  "parseInt (get_prop raw ''timeLimit'') = None \<Longrightarrow> timeLimit (validateSettings raw) = 60"
  by (simp_all add: validateSettings_def or_default_def)

text \<open>
  Claim C3. \<open>validateSettings\<close> clamps the problem count into \<open>[1, 10]\<close> and the time
  limit into \<open>[0, 3600]\<close>, falls back to 3 and 60 for malformed values and keeps valid
  values (the lemmas above), with one exception that the claim denies: a stored time
  limit of \<open>0\<close>, the value for "no limit", is not kept. \<open>parseInt(0) || 60\<close> takes \<open>0\<close>
  for a missing value, and the result is 60.
\<close>

theorem validateSettings_zero_timeLimit:
  "timeLimit (validateSettings zero_limit) = 60"
  by (simp add: validateSettings_def zero_limit_def get_prop_def parseInt_JNum or_default_def)

section \<open>The generator contract\<close>

lemma random_int_range:
  assumes "0 \<le> r" "r < 1"
  shows "0 \<le> random_int r n \<and> (0 < n \<longrightarrow> random_int r n < int n)"
proof -
  have "0 \<le> r * real n" using assms by simp
  then have a: "0 \<le> random_int r n" by (simp add: random_int_def)
  have b: "random_int r n < int n" if "0 < n"
  proof -
    have "r * real n < real n" using assms that by simp
    then show ?thesis unfolding random_int_def by (simp add: floor_less_iff)
  qed
  show ?thesis using a b by blast
qed

lemma tokens_nonempty: "tokens xs \<noteq> []"
  by (induction xs) (auto split: list.splits)

lemma tokens_word: "CHR '' '' \<notin> set xs \<Longrightarrow> tokens xs = [xs]"
  by (induction xs) auto

lemma tokens_append:
  "CHR '' '' \<notin> set xs \<Longrightarrow> tokens (xs @ CHR '' '' # ys) = xs # tokens ys"
  by (induction xs) auto

lemma show_nat_no_space: "CHR '' '' \<notin> set (show_nat n)"
proof
  assume "CHR '' '' \<in> set (show_nat n)"
  with show_nat_digits [of n] have "is_digit 10 CHR '' ''" by (simp add: list_all_iff)
  then show False by (simp add: is_digit_def digit_val_def)
qed

lemma show_int_no_space: "CHR '' '' \<notin> set (show_int i)"
  by (simp add: show_int_def show_nat_no_space)

lemma prompt_value_shape:
  assumes "CHR '' '' \<notin> set operator"
  shows "tokens (show_int a @ '' '' @ operator @ '' '' @ show_int b) =
    [show_int a, operator, show_int b]"
  using assms by (simp add: tokens_append tokens_word show_int_no_space)

lemma times_sign_facts:
  "CHR '' '' \<notin> set times_sign" "times_sign \<noteq> ''+''" "times_sign \<noteq> ''-''"
  by (simp_all add: times_sign_def)

lemma prompt_value_add:
  "prompt_value (show_int a @ CHR '' '' # CHR ''+'' # CHR '' '' # show_int b) = Some (a + b)"
  using prompt_value_shape [of "''+''" a b]
  by (simp add: prompt_value_def parseInt_str_show_int)

lemma prompt_value_sub:
  "prompt_value (show_int a @ CHR '' '' # CHR ''-'' # CHR '' '' # show_int b) = Some (a - b)"
  using prompt_value_shape [of "''-''" a b]
  by (simp add: prompt_value_def parseInt_str_show_int)

lemma prompt_value_mul:
  "prompt_value (show_int a @ CHR '' '' # times_sign @ CHR '' '' # show_int b) = Some (a * b)"
  using prompt_value_shape [OF times_sign_facts(1), of a b]
  by (simp add: prompt_value_def parseInt_str_show_int times_sign_facts)

lemma generateMathProblem_prompt:
  "prompt_value (question (fst (generateMathProblem dr p))) =
     Some (answer (fst (generateMathProblem dr p)))"
  by (simp add: generateMathProblem_def Let_def prompt_value_add prompt_value_sub
      prompt_value_mul)

text \<open>
  Claim C10. For draws in \<open>[0, 1)\<close> the problem \<open>generateMathProblem\<close> returns is an
  addition of two operands from 5 to 29 with their sum as the answer, or a subtraction
  shown and computed as the larger operand minus the smaller, with a non-negative
  answer, or a multiplication of two operands from 2 to 13 with their product as the
  answer. In each case the stored answer is the value a reader computes from the
  prompt.
\<close>

theorem generateMathProblem_contract:
  assumes "\<forall>i. 0 \<le> dr i \<and> dr i < 1"
  shows "(\<exists>a b.
     (5 \<le> a \<and> a \<le> 29 \<and> 5 \<le> b \<and> b \<le> 29 \<and>
        question (fst (generateMathProblem dr p)) = show_int a @ '' + '' @ show_int b \<and>
        answer (fst (generateMathProblem dr p)) = a + b)
   \<or> (5 \<le> a \<and> a \<le> 29 \<and> 5 \<le> b \<and> b \<le> 29 \<and>
        question (fst (generateMathProblem dr p)) =
          show_int (max a b) @ '' - '' @ show_int (min a b) \<and>
        answer (fst (generateMathProblem dr p)) = max a b - min a b \<and>
        0 \<le> answer (fst (generateMathProblem dr p)))
   \<or> (2 \<le> a \<and> a \<le> 13 \<and> 2 \<le> b \<and> b \<le> 13 \<and>
        question (fst (generateMathProblem dr p)) =
          show_int a @ '' '' @ times_sign @ '' '' @ show_int b \<and>
        answer (fst (generateMathProblem dr p)) = a * b))
   \<and> prompt_value (question (fst (generateMathProblem dr p))) =
       Some (answer (fst (generateMathProblem dr p)))"
proof -
  define n1 where "n1 = random_int (dr p) 25 + 5"
  define n2 where "n2 = random_int (dr (p + 1)) 25 + 5"
  define m1 where "m1 = random_int (dr (p + 3)) 12 + 2"
  define m2 where "m2 = random_int (dr (p + 4)) 12 + 2"
  have r: "\<And>i n. 0 \<le> random_int (dr i) n" "\<And>i n. 0 < n \<Longrightarrow> random_int (dr i) n < int n"
    using random_int_range assms by blast+
  have n1: "5 \<le> n1 \<and> n1 \<le> 29"
    using r(1) [of p 25] r(2) [of 25 p] by (simp add: n1_def)
  have n2: "5 \<le> n2 \<and> n2 \<le> 29"
    using r(1) [of "p + 1" 25] r(2) [of 25 "p + 1"] by (simp add: n2_def)
  have m1: "2 \<le> m1 \<and> m1 \<le> 13"
    using r(1) [of "p + 3" 12] r(2) [of 12 "p + 3"] by (simp add: m1_def)
  have m2: "2 \<le> m2 \<and> m2 \<le> 13"
    using r(1) [of "p + 4" 12] r(2) [of 12 "p + 4"] by (simp add: m2_def)
  consider (add) "random_int (dr (p + 2)) 3 = 0" | (sub) "random_int (dr (p + 2)) 3 = 1"
    | (mul) "random_int (dr (p + 2)) 3 \<noteq> 0" "random_int (dr (p + 2)) 3 \<noteq> 1"
    by blast
  then have "\<exists>a b.
     (5 \<le> a \<and> a \<le> 29 \<and> 5 \<le> b \<and> b \<le> 29 \<and>
        question (fst (generateMathProblem dr p)) = show_int a @ '' + '' @ show_int b \<and>
        answer (fst (generateMathProblem dr p)) = a + b)
   \<or> (5 \<le> a \<and> a \<le> 29 \<and> 5 \<le> b \<and> b \<le> 29 \<and>
        question (fst (generateMathProblem dr p)) =
          show_int (max a b) @ '' - '' @ show_int (min a b) \<and>
        answer (fst (generateMathProblem dr p)) = max a b - min a b \<and>
        0 \<le> answer (fst (generateMathProblem dr p)))
   \<or> (2 \<le> a \<and> a \<le> 13 \<and> 2 \<le> b \<and> b \<le> 13 \<and>
        question (fst (generateMathProblem dr p)) =
          show_int a @ '' '' @ times_sign @ '' '' @ show_int b \<and>
        answer (fst (generateMathProblem dr p)) = a * b)"
  proof cases
    case add
    then have "question (fst (generateMathProblem dr p)) = show_int n1 @ '' + '' @ show_int n2"
      and "answer (fst (generateMathProblem dr p)) = n1 + n2"
      by (simp_all add: generateMathProblem_def n1_def n2_def Let_def)
    with n1 n2 show ?thesis by blast
  next
    case sub
    then have "question (fst (generateMathProblem dr p)) =
        show_int (max n1 n2) @ '' - '' @ show_int (min n1 n2)"
      and "answer (fst (generateMathProblem dr p)) = max n1 n2 - min n1 n2"
      by (simp_all add: generateMathProblem_def n1_def n2_def Let_def)
    moreover have "0 \<le> max n1 n2 - min n1 n2" by simp
    ultimately show ?thesis using n1 n2 by metis
  next
    case mul
    then have "question (fst (generateMathProblem dr p)) =
        show_int m1 @ '' '' @ times_sign @ '' '' @ show_int m2"
      and "answer (fst (generateMathProblem dr p)) = m1 * m2"
      by (simp_all add: generateMathProblem_def m1_def m2_def Let_def)
    with m1 m2 show ?thesis by blast
  qed
  then show ?thesis using generateMathProblem_prompt [of dr p] by blast
qed

theorem generateMathProblem_contract_witness:
  "(\<forall>i. 0 \<le> draws i \<and> draws i < 1) \<and>
   question (fst (generateMathProblem draws 0)) = ''27 - 7'' \<and>
   answer (fst (generateMathProblem draws 0)) = 20 \<and>
   prompt_value ''27 - 7'' = Some 20"
proof -
  have h: "\<forall>i. 0 \<le> draws i \<and> draws i < 1" by (simp add: draws_def)
  show ?thesis
    using h generateMathProblem_contract [OF h, of 0]
    by (simp add: generateMathProblem_def draws_def random_int_def show_int_def
        show_nat.simps digit_char_def)
qed

section \<open>The invariants hold in every reachable state\<close>

text \<open>
  Each handler keeps the invariants, so each step does, and the state after any run
  from the start of the script satisfies them.
\<close>

lemma list_all_update:
  "list_all P xs \<Longrightarrow> (i < length xs \<Longrightarrow> P y) \<Longrightarrow> list_all P (xs[i := y])"
  by (cases "i < length xs") (auto simp: list_all_length nth_list_update)

lemma tick_ok_update:
  assumes "\<And>x. static (f x) = static x"
  shows "tick_ok (xs[i := f (xs ! i)]) = tick_ok xs"
proof
  fix u
  show "tick_ok (xs[i := f (xs ! i)]) u = tick_ok xs u"
  proof (cases "job u")
  case (Tick sid)
  have "static (xs[i := f (xs ! i)] ! sid) = static (xs ! sid)" if "sid < length xs"
    using that assms [of "xs ! i"] by (cases "i = sid") simp_all
  then show ?thesis using Tick
    by (auto simp: tick_ok_def)
  qed (simp_all add: tick_ok_def)
qed

lemma tick_ok_append: "tick_ok xs u \<Longrightarrow> tick_ok (xs @ [x]) u"
  by (cases "job u") (auto simp: tick_ok_def nth_append)

lemma tick_ok_other: "(\<And>sid. j \<noteq> Tick sid) \<Longrightarrow> tick_ok xs (Timer h d p j)"
  by (cases j) (auto simp: tick_ok_def)

lemma inv_upd_session:
  assumes "inv s" and "\<And>x. session_ok x \<Longrightarrow> session_ok (f x)" and "\<And>x. static (f x) = static x"
  shows "inv (upd_session sid f s)"
proof -
  have "list_all session_ok ((sessions s)[sid := f (sessions s ! sid)])"
    using assms(1,2) by (intro list_all_update) (auto simp: inv_def list_all_length)
  then show ?thesis
    using assms(1) by (simp add: inv_def upd_session_def tick_ok_update [OF assms(3)])
qed

lemma inv_setTimeout:
  assumes "inv s" and "\<And>sid. j \<noteq> Tick sid"
  shows "inv (setTimeout j d s)"
  using assms(1) by (simp add: inv_def setTimeout_def tick_ok_other [OF assms(2)])

lemma inv_clearTimer: "inv s \<Longrightarrow> inv (clearTimer h s)"
  by (cases h) (auto simp: inv_def clearTimer_def list_all_iff)

lemma inv_upd_button [simp]: "inv (upd_button b f s) = inv s"
  by (simp add: inv_def upd_button_def)

lemma inv_fields [simp]:
  "inv (s\<lparr>challengeActive := ca\<rparr>) = inv s"
  "inv (s\<lparr>document := dc\<rparr>) = inv s"
  "inv (s\<lparr>buttons := bs\<rparr>) = inv s"
  "inv (s\<lparr>pending := pd\<rparr>) = inv s"
  "inv (s\<lparr>now := t\<rparr>) = inv s"
  "inv (s\<lparr>settings := st\<rparr>) = inv s"
  "inv (s\<lparr>rpos := rp\<rparr>) = inv s"
  "inv (s\<lparr>chromeStorage := a\<rparr>) = inv s"
  by (simp_all add: inv_def)

lemma session_ok_upd_input:
  assumes "\<And>e. correct (f e) = correct e"
  shows "session_ok (upd_input i f x) = session_ok x"
proof -
  have "map correct ((answerInputs x)[i := f (answerInputs x ! i)]) = map correct (answerInputs x)"
  proof (cases "i < length (answerInputs x)")
    case True
    then have "(map correct (answerInputs x))[i := correct (f (answerInputs x ! i))] =
        (map correct (answerInputs x))[i := map correct (answerInputs x) ! i]"
      by (simp add: assms)
    then show ?thesis by (simp add: map_update)
  next
    case False
    then show ?thesis by (simp add: list_update_beyond)
  qed
  then show ?thesis by (simp add: session_ok_def upd_input_def)
qed

lemma static_upd_input [simp]: "static (upd_input i f x) = static x"
  by (simp add: static_def upd_input_def)

lemma correct_validateInput [simp]: "correct (validateInput e) = correct e"
  by (simp add: validateInput_def Let_def)

lemma inv_upd_input:
  assumes "inv s" and "\<And>e. correct (f e) = correct e"
  shows "inv (upd_session sid (upd_input i f) s)"
  using assms(1) by (rule inv_upd_session) (simp_all add: session_ok_upd_input [OF assms(2)])

lemma inv_move_focus: "inv s \<Longrightarrow> inv (move_focus sid tgt s)"
  unfolding move_focus_def Let_def
  by (auto split: option.splits intro!: inv_upd_session inv_upd_input simp: session_ok_def static_def)

lemma inv_focus_call: "inv s \<Longrightarrow> inv (focus_call sid i s)"
  by (simp add: focus_call_def inv_move_focus)

lemma inv_on_input: "inv s \<Longrightarrow> inv (on_input sid i v s)"
  unfolding on_input_def Let_def
  by (intro inv_setTimeout inv_upd_input inv_clearTimer) simp_all

lemma inv_checkAllAnswers: "inv s \<Longrightarrow> inv (checkAllAnswers sid s)"
  unfolding checkAllAnswers_def Let_def
  by (auto split: option.splits intro!: inv_setTimeout inv_upd_session inv_clearTimer inv_focus_call
      simp: session_ok_def static_def)

lemma inv_on_enter: "inv s \<Longrightarrow> inv (on_enter sid i s)"
  unfolding on_enter_def Let_def
  by (auto intro!: inv_focus_call inv_checkAllAnswers inv_upd_input)

lemma inv_on_backdrop: "inv s \<Longrightarrow> inv (on_backdrop sid s)"
  unfolding on_backdrop_def Let_def by (simp add: inv_clearTimer)


lemma length_generate_problems [simp]: "length (fst (generate_problems r p n)) = n"
proof (induction n arbitrary: p)
  case 0
  show ?case by simp
next
  case (Suc n)
  obtain q p1 where a: "generateMathProblem r p = (q, p1)"
    by (cases "generateMathProblem r p") auto
  obtain qs p2 where b: "generate_problems r p1 n = (qs, p2)"
    by (cases "generate_problems r p1 n") auto
  from Suc [of p1] b have "length qs = n" by simp
  then show ?case by (simp add: a b)
qed

lemma correct_refresh_inputs:
  "length es = length ps \<Longrightarrow>
   map correct (refresh_inputs ps es) = map (\<lambda>q. show_int (answer q)) ps"
  by (induction ps es rule: refresh_inputs.induct) auto

lemma refresh_questions_eq:
  "length ds = length ps \<Longrightarrow>
   refresh_questions ps ds = map (\<lambda>q. question q @ '' = ?'') ps"
  by (induction ps ds rule: refresh_questions.induct) auto

lemma session_ok_lengths:
  assumes "session_ok x"
  shows "length (answerInputs x) = nat (numProblems (currentSettings x))"
    and "length (questionDivs x) = nat (numProblems (currentSettings x))"
proof -
  from assms have "map correct (answerInputs x) =
      map (\<lambda>q. show_int (answer q)) (currentProblems x)"
    by (simp add: session_ok_def)
  then have "length (answerInputs x) = length (currentProblems x)"
    by (rule map_eq_imp_length_eq)
  with assms show "length (answerInputs x) = nat (numProblems (currentSettings x))"
    by (simp add: session_ok_def)
  from assms show "length (questionDivs x) = nat (numProblems (currentSettings x))"
    by (simp add: session_ok_def)
qed

lemma session_ok_expire:
  assumes "session_ok x" and "ps = fst (generate_problems r p (nat (numProblems (currentSettings x))))"
  shows "session_ok (x\<lparr>currentProblems := ps,
            questionDivs := refresh_questions ps (questionDivs x),
            answerInputs := refresh_inputs ps (answerInputs x),
            errorText := et, errorShown := es\<rparr>)"
  using session_ok_lengths [OF assms(1)] assms(2)
  by (simp add: session_ok_def correct_refresh_inputs refresh_questions_eq)

lemma inv_handleTimerExpiration: "inv s \<Longrightarrow> inv (handleTimerExpiration sid s)"
proof -
  assume i: "inv s"
  obtain ps p1 where g: "generate_problems (rnd s) (rpos s)
      (nat (numProblems (currentSettings (sessions s ! sid)))) = (ps, p1)"
    by (cases "generate_problems (rnd s) (rpos s)
      (nat (numProblems (currentSettings (sessions s ! sid))))") auto
  show ?thesis
  proof -
    have ok: "session_ok (sessions s ! sid)" if "sid < length (sessions s)"
      using i that by (simp add: inv_def list_all_length)
    have ps: "ps = fst (generate_problems (rnd s) (rpos s)
        (nat (numProblems (currentSettings (sessions s ! sid)))))" by (simp add: g)
    have 1: "inv (upd_session sid
                 (\<lambda>x. x\<lparr>currentProblems := ps,
                        questionDivs := refresh_questions ps (questionDivs x),
                        answerInputs := refresh_inputs ps (answerInputs x),
                        errorText := ''Time's up! New problems generated.'',
                        errorShown := True\<rparr>) (s\<lparr>rpos := p1\<rparr>))"
    proof -
      have "list_all session_ok ((sessions s)[sid := (sessions s ! sid)\<lparr>currentProblems := ps,
                        questionDivs := refresh_questions ps (questionDivs (sessions s ! sid)),
                        answerInputs := refresh_inputs ps (answerInputs (sessions s ! sid)),
                        errorText := ''Time's up! New problems generated.'',
                        errorShown := True\<rparr>])"
        using i session_ok_expire [OF ok ps]
        by (intro list_all_update) (simp_all add: inv_def)
      moreover have "tick_ok ((sessions s)[sid := (\<lambda>x. x\<lparr>currentProblems := ps,
                        questionDivs := refresh_questions ps (questionDivs x),
                        answerInputs := refresh_inputs ps (answerInputs x),
                        errorText := ''Time's up! New problems generated.'',
                        errorShown := True\<rparr>) (sessions s ! sid)]) = tick_ok (sessions s)"
        by (rule tick_ok_update) (simp add: static_def)
      ultimately show ?thesis using i by (simp add: inv_def upd_session_def)
    qed
    show ?thesis
      unfolding handleTimerExpiration_def Let_def g prod.case
      by (intro inv_upd_session inv_setTimeout 1) (simp_all add: session_ok_def static_def)
  qed
qed

lemma inv_tick: "inv s \<Longrightarrow> inv (tick sid s)"
  unfolding tick_def Let_def
  by (auto intro!: inv_handleTimerExpiration inv_upd_session simp: session_ok_def static_def)

lemma session_ok_new:
  assumes "ps = fst (generate_problems r p (nat (numProblems cs)))"
  shows "session_ok \<lparr>currentSettings = cs, onSuccess = b, timeRemaining = tr,
                 timerInterval = ti, currentProblems = ps, answerInputs = map new_input ps,
                 questionDivs = map (\<lambda>q. question q @ '' = ?'') ps,
                 errorText = et, errorShown = es, submitText = st,
                 focused = fo, successCalls = sc, replayCalls = rc\<rparr>"
  using assms by (simp add: session_ok_def new_input_def comp_def)

lemma inv_showMathChallenge: "inv s \<Longrightarrow> inv (showMathChallenge cs b s)"
proof -
  assume i: "inv s"
  obtain ps p1 where g: "generate_problems (rnd s) (rpos s) (nat (numProblems cs)) = (ps, p1)"
    by (cases "generate_problems (rnd s) (rpos s) (nat (numProblems cs))") auto
  have ps: "ps = fst (generate_problems (rnd s) (rpos s) (nat (numProblems cs)))" by (simp add: g)
  show ?thesis
  proof (cases "challengeActive s")
    case True
    then show ?thesis using i by (simp add: showMathChallenge_def)
  next
    case False
    have old: "list_all (tick_ok (sessions s @ [x])) (timers s)" for x
      using i by (auto simp: inv_def list_all_iff intro: tick_ok_append)
    show ?thesis using False i
      unfolding showMathChallenge_def
      by (simp add: Let_def g setTimeout_def setInterval_def inv_def session_ok_new [OF ps] old
          tick_ok_def static_def)
  qed
qed

lemma inv_then_callback: "inv s \<Longrightarrow> inv (then_callback b s)"
  by (simp add: then_callback_def inv_showMathChallenge)

lemma inv_microtasks: "inv s \<Longrightarrow> inv (microtasks k b s)"
  by (induction k arbitrary: s) (simp_all add: inv_then_callback)

lemma inv_loadSettings: "inv s \<Longrightarrow> inv (snd (loadSettings c s))"
  by (simp add: loadSettings_def)

lemma inv_loadSettings_pair: "inv s \<Longrightarrow> loadSettings c s = (r, s1) \<Longrightarrow> inv s1"
  by (auto simp: loadSettings_def split: if_splits)

lemma inv_script_hooks: "inv s \<Longrightarrow> script_hooks n b s = (k, s1) \<Longrightarrow> inv s1"
proof (induction n arbitrary: s k s1)
  case 0
  then show ?case by simp
next
  case (Suc n)
  show ?case
  proof (cases "challengeActive s")
    case True
    with Suc.prems Suc.IH [of s k s1] show ?thesis by simp
  next
    case False
    obtain r s2 where l: "loadSettings (AfterClick b) s = (r, s2)"
      by (cases "loadSettings (AfterClick b) s") auto
    obtain k2 s3 where h: "script_hooks n b s2 = (k2, s3)"
      by (cases "script_hooks n b s2") auto
    from Suc.prems(2) False l h have "s1 = s3" by simp
    with Suc.IH [OF inv_loadSettings_pair [OF Suc.prems(1) l] h] show ?thesis by simp
  qed
qed

lemma inv_user_hooks: "inv s \<Longrightarrow> user_hooks n b s = (st, s1) \<Longrightarrow> inv s1"
proof (induction n arbitrary: s st s1)
  case 0
  then show ?case by simp
next
  case (Suc n)
  show ?case
  proof (cases "challengeActive s")
    case True
    with Suc.prems Suc.IH [of s st s1] show ?thesis by simp
  next
    case False
    obtain r s2 where l: "loadSettings (AfterClick b) s = (r, s2)"
      by (cases "loadSettings (AfterClick b) s") auto
    note i2 = inv_loadSettings_pair [OF Suc.prems(1) l]
    show ?thesis
    proof (cases "r \<and> shouldBeActive (settings s2) (getHours s2)")
      case True
      with Suc.prems(2) False l have "s1 = showMathChallenge (settings s2) b s2" by auto
      with i2 show ?thesis by (simp add: inv_showMathChallenge)
    next
      case no: False
      with Suc.prems(2) False l have "user_hooks n b s2 = (st, s1)" by auto
      from Suc.IH [OF i2 this] show ?thesis .
    qed
  qed
qed

lemma inv_user_click: "inv s \<Longrightarrow> inv (user_click b s)"
  by (auto simp: user_click_def Let_def split: prod.splits dest: inv_user_hooks)

lemma inv_success_callback: "inv s \<Longrightarrow> inv (success_callback sid s)"
  unfolding success_callback_def
  by (intro inv_setTimeout inv_upd_session) (simp_all add: session_ok_def static_def)

lemma inv_teardown: "inv s \<Longrightarrow> inv (teardown sid s)"
  by (simp add: teardown_def inv_success_callback)

lemma inv_replay: "inv s \<Longrightarrow> inv (replay sid s)"
proof -
  assume i: "inv s"
  let ?b = "onSuccess (sessions s ! sid)"
  let ?s1 = "upd_button ?b (\<lambda>u. u\<lparr>gadiProtected := Some []\<rparr>)
                 (upd_session sid (\<lambda>x. x\<lparr>replayCalls := replayCalls x + 1\<rparr>) s)"
  have 1: "inv ?s1" using i
    by (auto intro!: inv_upd_session simp: session_ok_def static_def)
  obtain k s2 where h: "script_hooks (hooks (buttons ?s1 ! ?b)) ?b ?s1 = (k, s2)"
    by (cases "script_hooks (hooks (buttons ?s1 ! ?b)) ?b ?s1") auto
  have 2: "inv s2" using inv_script_hooks [OF 1 h] .
  show ?thesis
    unfolding replay_def Let_def h prod.case
    by (intro inv_microtasks inv_setTimeout) (simp_all add: 2)
qed

lemma inv_rearm: "inv s \<Longrightarrow> inv (rearm sid s)"
  by (simp add: rearm_def)

lemma inv_scan: "inv s \<Longrightarrow> inv (findAndProtectSendButtons s)"
  by (simp add: findAndProtectSendButtons_def)

lemma inv_run_task: "inv s \<Longrightarrow> inv (run_task j s)"
  unfolding run_task_def
  by (cases j)
     (auto intro!: inv_scan inv_tick inv_upd_session inv_upd_input inv_focus_call inv_teardown
        inv_replay inv_rearm simp: session_ok_def static_def)


lemma inv_setInterval_Scan: "inv s \<Longrightarrow> inv (setInterval Scan d s)"
  by (simp add: inv_def setInterval_def tick_ok_def)

lemma inv_after_init: "inv s \<Longrightarrow> inv (after_init s)"
  by (simp add: after_init_def inv_setInterval_Scan inv_scan)

lemma inv_storage_reply: "inv s \<Longrightarrow> inv (storage_reply k res s)"
  unfolding storage_reply_def Let_def
  by (auto split: cont.splits sum.splits intro!: inv_after_init inv_then_callback)

lemma inv_handle_event: "inv s \<Longrightarrow> handle_event e s = Some s1 \<Longrightarrow> inv s1"
  unfolding handle_event_def
  by (cases e)
     (auto split: if_splits simp: inv_user_click inv_storage_reply inv_on_input inv_move_focus
        inv_on_enter inv_checkAllAnswers inv_on_backdrop loadSettings_def)

lemma earliest_in: "earliest v vs \<in> set (v # vs)"
  by (induction vs arbitrary: v) (auto split: if_splits)

lemma tick_ok_requeue:
  "tick_ok xs u \<Longrightarrow> period u = Some p \<Longrightarrow> tick_ok xs (Timer (handle u) d (Some p) (job u))"
  by (cases "job u") (simp_all add: tick_ok_def)

lemma inv_fire: "inv s \<Longrightarrow> fire s = Some s1 \<Longrightarrow> inv s1"
proof -
  assume i: "inv s" and f: "fire s = Some s1"
  from f obtain v vs where ts: "timers s = v # vs" by (cases "timers s") (auto simp: fire_def)
  define u where "u = earliest v vs"
  have uin: "u \<in> set (timers s)" using earliest_in [of v vs] by (simp add: u_def ts)
  have uok: "tick_ok (sessions s) u" using i uin by (simp add: inv_def list_all_iff)
  define others where "others = filter (\<lambda>w. handle w \<noteq> handle u) (v # vs)"
  define s0 where "s0 = s\<lparr>now := max (now s) (due u),
                     timers := (case period u of None \<Rightarrow> others
                                | Some d \<Rightarrow> others @ [Timer (handle u) (due u + d) (Some d) (job u)])\<rparr>"
  have "list_all (tick_ok (sessions s)) others"
    using i unfolding others_def ts [symmetric] by (auto simp: inv_def list_all_iff)
  then have "inv s0" using i uok
    by (cases "period u") (simp_all add: s0_def inv_def tick_ok_requeue)
  moreover have "s1 = run_task (job u) s0"
    using f unfolding fire_def ts list.case Let_def u_def s0_def others_def by simp
  ultimately show ?thesis by (simp add: inv_run_task)
qed

lemma inv_step: "inv s \<Longrightarrow> step a s = Some s1 \<Longrightarrow> inv s1"
proof (cases a)
  case Fire
  assume "inv s" "step a s = Some s1"
  with Fire show ?thesis by (simp add: inv_fire)
next
  case (At t e)
  assume i: "inv s" and "step a s = Some s1"
  with At have "handle_event e (s\<lparr>now := t\<rparr>) = Some s1" by (simp split: if_splits)
  moreover have "inv (s\<lparr>now := t\<rparr>)" using i by simp
  ultimately show ?thesis by (rule inv_handle_event [rotated])
qed

lemma inv_run: "inv s \<Longrightarrow> run tr s = Some s1 \<Longrightarrow> inv s1"
proof (induction tr arbitrary: s)
  case Nil
  then show ?case by simp
next
  case (Cons a tr)
  from Cons.prems(2) obtain s2 where a: "step a s = Some s2" and r: "run tr s2 = Some s1"
    by (auto split: option.splits)
  from Cons.IH [OF inv_step [OF Cons.prems(1) a] r] show ?case .
qed

lemma inv_startup: "inv (startup api bs c0 r)"
proof -
  have "inv \<lparr>now = 0, clock0 = c0, chromeStorage = api, onChangedListener = api,
                challengeActive = False, settings = DEFAULT_SETTINGS, buttons = bs,
                sessions = [], document = [], timers = [], nextHandle = 1, pending = [],
                rnd = r, rpos = 0\<rparr>"
    by (simp add: inv_def)
  then show ?thesis
    by (cases api) (simp_all add: startup_def Let_def loadSettings_def inv_after_init, simp add: inv_def)
qed

lemma inv_reachable: "run tr (startup api bs c0 r) = Some s \<Longrightarrow> inv s"
  using inv_run [OF inv_startup] .

section \<open>Evaluating the model on concrete runs\<close>

text \<open>
  The definitions that \<open>simp\<close> unfolds to run the model on a concrete page and a
  concrete list of actions.
\<close>

lemmas number_input_defs =
  number_value_def valid_float_def valid_exponent_def is_digit_def digit_val_def Let_def

lemma number_value_digit:
  "number_value ''0'' = ''0''" "number_value ''5'' = ''5''"
  by (simp_all add: number_input_defs)

lemmas model_defs = number_value_digit
  startup_def loadSettings_def after_init_def findAndProtectSendButtons_def setInterval_def
  setTimeout_def clearTimer_def upd_session_def upd_input_def upd_button_def truthy_def
  handle_event_def storage_reply_def then_callback_def shouldBeActive_def getHours_def
  showMathChallenge_def user_click_def fire_def run_task_def attached_def has_input_def
  validateSettings_def storage_get_def DEFAULT_SETTINGS_obj_def DEFAULT_SETTINGS_def get_prop_def
  parseInt_def or_default_def SCAN_INTERVAL_def CHALLENGE_TIMEOUT_def MODAL_ANIMATION_DELAY_def
  NIGHT_START_def NIGHT_END_def new_input_def generateMathProblem_def random_int_def
  on_input_def on_enter_def on_backdrop_def checkAllAnswers_def tick_def handleTimerExpiration_def
  teardown_def success_callback_def replay_def rearm_def move_focus_def focus_call_def validateInput_def
  strict_eq_def strict_ne_def isNaN_def
  parseInt_str_def parse_radix_def is_digit_def digit_val_def is_space_def
  show_int_def show_nat.simps digit_char_def Let_def

lemma generate_problems_numeral:
  "generate_problems r p (numeral k) =
     (let (q, p1) = generateMathProblem r p;
          (qs, p2) = generate_problems r p1 (pred_numeral k)
      in (q # qs, p2))"
  by (simp add: numeral_eq_Suc)

lemmas input_defs =
  send_button_def one_problem_def half_def page_def opened_def answered_def snapshot_of_def

section \<open>Submission\<close>

lemma map_update_same: "f y = f (xs ! i) \<Longrightarrow> map f (xs[i := y]) = map f xs"
proof (cases "i < length xs")
  case True
  assume "f y = f (xs ! i)"
  with True have "(map f xs)[i := f y] = (map f xs)[i := map f xs ! i]" by simp
  then show ?thesis by (simp add: map_update)
next
  case False
  then show ?thesis by (simp add: list_update_beyond)
qed

lemma check_loop_False: "check_loop False es = False"
  by (induction es) (simp_all add: Let_def)

lemma check_loop_iff:
  "check_loop True es =
     list_all (\<lambda>e. strict_eq (parseInt_str (ivalue e)) (parseInt_str (correct e))) es"
proof (induction es)
  case Nil
  show ?case by simp
next
  case (Cons e es)
  show ?case
    by (cases "parseInt_str (ivalue e)"; cases "parseInt_str (correct e)")
       (simp_all add: Let_def strict_ne_def strict_eq_def isNaN_def check_loop_False Cons.IH)
qed

lemma check_loop_answers:
  assumes "session_ok x"
  shows "check_loop True (answerInputs x) =
    (\<forall>i < length (currentProblems x).
       parseInt_str (ivalue (answerInputs x ! i)) = Some (answer (currentProblems x ! i)))"
proof -
  from assms have c: "map correct (answerInputs x) =
      map (\<lambda>q. show_int (answer q)) (currentProblems x)"
    by (simp add: session_ok_def)
  then have len: "length (answerInputs x) = length (currentProblems x)"
    by (rule map_eq_imp_length_eq)
  have ci: "correct (answerInputs x ! i) = show_int (answer (currentProblems x ! i))"
    if "i < length (currentProblems x)" for i
  proof -
    from that len have "map correct (answerInputs x) ! i = correct (answerInputs x ! i)" by simp
    with c that show ?thesis by simp
  qed
  show ?thesis
    unfolding check_loop_iff list_all_length len
    by (auto simp: ci parseInt_str_show_int strict_eq_def split: option.splits)
qed

lemma move_focus_frame:
  "timers (move_focus sid tgt s) = timers s"
  "document (move_focus sid tgt s) = document s"
  "challengeActive (move_focus sid tgt s) = challengeActive s"
  "nextHandle (move_focus sid tgt s) = nextHandle s"
  "now (move_focus sid tgt s) = now s"
  "rpos (move_focus sid tgt s) = rpos s"
  "buttons (move_focus sid tgt s) = buttons s"
  "length (sessions (move_focus sid tgt s)) = length (sessions s)"
  by (auto simp: move_focus_def upd_session_def Let_def split: option.splits)

lemma same_content_refl [simp]: "same_content x x"
  by (simp add: same_content_def)

lemma same_content_style:
  "ivalue (f (answerInputs x ! i)) = ivalue (answerInputs x ! i) \<Longrightarrow>
   correct (f (answerInputs x ! i)) = correct (answerInputs x ! i) \<Longrightarrow>
   same_content x (upd_input i f x)"
  by (simp add: same_content_def upd_input_def map_update_same)

lemma same_content_trans: "same_content x y \<Longrightarrow> same_content y z \<Longrightarrow> same_content x z"
  by (simp add: same_content_def)

lemma ivalue_validateInput [simp]: "ivalue (validateInput e) = ivalue e"
  by (simp add: validateInput_def Let_def)

lemma move_focus_content:
  assumes "sid < length (sessions s)"
  shows "same_content (sessions s ! sid) (sessions (move_focus sid tgt s) ! sid)"
proof -
  let ?x = "sessions s ! sid"
  define s1 where "s1 = (case focused ?x of None \<Rightarrow> s
                  | Some j \<Rightarrow> upd_session sid (upd_input j validateInput) s)"
  define s2 where "s2 = (case tgt of None \<Rightarrow> s1
                  | Some i \<Rightarrow> upd_session sid (upd_input i (\<lambda>e. e\<lparr>borderColor := Focused\<rparr>)) s1)"
  have l1: "length (sessions s1) = length (sessions s)"
    by (simp add: s1_def upd_session_def split: option.splits)
  have 1: "same_content ?x (sessions s1 ! sid)"
    using assms by (auto simp: s1_def upd_session_def same_content_style split: option.splits)
  have l2: "length (sessions s2) = length (sessions s)"
    by (simp add: s2_def l1 upd_session_def split: option.splits)
  have 2: "same_content (sessions s1 ! sid) (sessions s2 ! sid)"
    using assms l1 by (auto simp: s2_def upd_session_def same_content_style split: option.splits)
  have 3: "same_content (sessions s2 ! sid) (sessions (upd_session sid (\<lambda>x. x\<lparr>focused := tgt\<rparr>) s2) ! sid)"
    using assms l2 by (simp add: upd_session_def same_content_def)
  show ?thesis
  proof (cases "focused ?x = tgt")
    case True
    then show ?thesis by (simp add: move_focus_def)
  next
    case False
    then have "move_focus sid tgt s = upd_session sid (\<lambda>x. x\<lparr>focused := tgt\<rparr>) s2"
      unfolding move_focus_def Let_def s1_def s2_def by simp
    with 1 2 3 show ?thesis by (metis same_content_trans)
  qed
qed

lemma focus_call_frame:
  "timers (focus_call sid i s) = timers s"
  "document (focus_call sid i s) = document s"
  "challengeActive (focus_call sid i s) = challengeActive s"
  "nextHandle (focus_call sid i s) = nextHandle s"
  "now (focus_call sid i s) = now s"
  "rpos (focus_call sid i s) = rpos s"
  "buttons (focus_call sid i s) = buttons s"
  "length (sessions (focus_call sid i s)) = length (sessions s)"
  by (simp_all add: focus_call_def move_focus_frame)

lemma focus_call_content:
  "sid < length (sessions s) \<Longrightarrow>
   same_content (sessions s ! sid) (sessions (focus_call sid i s) ! sid)"
  by (simp add: focus_call_def move_focus_content)



section \<open>Interception, submission twice, and the flag\<close>

text \<open>
  Claim C1. The claim says that a click \<open>shouldBeActive\<close> decides to intercept never
  reaches the host page's send handling. In the run \<open>first_click\<close> the storage API is present
  and the settings are the defaults (enabled, always active). The hook starts the
  storage read and returns; the click goes on to the host, which receives it at
  1000 ms (\<open>host_clicks = [1]\<close>) while the read is in flight. The calls of
  \<open>preventDefault\<close> and \<open>stopImmediatePropagation\<close> come with the reply, at 1020 ms,
  after the dispatch: the challenge opens then, for a message already sent.
\<close>

theorem click_reaches_host:
  "snapshots first_click page =
     [Some \<lparr>clock = 10, flag = False, on_page = [], reads = [], host_clicks = [0],
             successes = [], replays = [], waiting = [Scan]\<rparr>,
      Some \<lparr>clock = 1000, flag = False, on_page = [], reads = [AfterClick 0],
             host_clicks = [1], successes = [], replays = [], waiting = [Scan]\<rparr>,
      Some \<lparr>clock = 1020, flag = True, on_page = [0], reads = [], host_clicks = [1],
             successes = [0], replays = [0], waiting = [Scan, Tick 0, FocusFirst 0]\<rparr>]"
  by (simp add: model_defs input_defs first_click_def generate_problems_numeral)

text \<open>
  Claim C5. The claim says that a load on the gating path that exceeds 3000 ms
  resolves with defaults, so that the decision to intercept completes. In the run \<open>no_reply\<close>
  the storage does not answer the read the click started at 1000 ms. At 4010 ms the
  read is still in flight, no decision has been taken, and the only timer of the
  script is the periodic scan: \<open>loadSettings\<close> of \<open>content.js\<close> sets no timeout (the one
  of \<open>popup.js\<close> does), and nothing but the reply resolves its promise.
\<close>

theorem load_without_timeout:
  "snapshots no_reply page =
     [Some \<lparr>clock = 10, flag = False, on_page = [], reads = [], host_clicks = [0],
             successes = [], replays = [], waiting = [Scan]\<rparr>,
      Some \<lparr>clock = 1000, flag = False, on_page = [], reads = [AfterClick 0],
             host_clicks = [1], successes = [], replays = [], waiting = [Scan]\<rparr>,
      Some \<lparr>clock = 2010, flag = False, on_page = [], reads = [AfterClick 0],
             host_clicks = [1], successes = [], replays = [], waiting = [Scan]\<rparr>,
      Some \<lparr>clock = 4010, flag = False, on_page = [], reads = [AfterClick 0],
             host_clicks = [1], successes = [], replays = [], waiting = [Scan]\<rparr>]"
  by (simp add: model_defs input_defs no_reply_def generate_problems_numeral)

text \<open>
  Claim C2. The claim says that the success callback fires once however often the
  submit trigger is activated before the teardown. In the run \<open>double_submit\<close> the
  answer is right and the submit button is clicked at 1900 ms and again at 2600 ms,
  while the session is still on the page: \<open>checkAllAnswers\<close> schedules a teardown each
  time, and the success callback of session 0 has run twice by 3400 ms. The list
  starts with the first submission.
\<close>

theorem double_submit_two_successes:
  "map (map_option (\<lambda>n. (clock n, on_page n, successes n, waiting n)))
     (drop 6 (snapshots (answered @ double_submit) page)) =
     [Some (1900, [0], [0], [Scan, Teardown 0]),
      Some (2010, [0], [0], [Teardown 0, Scan]),
      Some (2600, [0], [0], [Teardown 0, Scan, Teardown 0]),
      Some (2700, [], [1], [Scan, Teardown 0, Replay 0]),
      Some (3200, [], [1], [Scan, Teardown 0, Rearm 0]),
      Some (3400, [], [2], [Scan, Rearm 0, Replay 0]),
      Some (3900, [], [2], [Scan, Rearm 0, Rearm 0])]"
  by (simp add: model_defs input_defs double_submit_def generate_problems_numeral)

text \<open>
  Claim C8. The claim says that the replay occurs at most once for a successful
  session. In the same run each of the two success callbacks schedules its own
  re-click: the control is clicked by the script at 3200 ms and at 3900 ms, and the
  host has received three clicks for one message (the user's and two replays).
\<close>

theorem double_submit_two_replays:
  "map (map_option (\<lambda>n. (clock n, host_clicks n, replays n)))
     (drop 9 (snapshots (answered @ double_submit) page)) =
     [Some (2700, [1], [0]),
      Some (3200, [2], [1]),
      Some (3400, [2], [1]),
      Some (3900, [3], [2])]"
  by (simp add: model_defs input_defs double_submit_def generate_problems_numeral)

text \<open>
  Claim C7. The claim says that a click while a session is active is a no-op at the
  hook. The run goes on from the double submission: each replay has set its own
  cooldown timer. The first ends at 6200 ms; the user clicks and session 1 opens at
  6320 ms. The second ends at 6900 ms and clears the flag while session 1 is on the
  page. The click at 7000 ms passes the guard of the hook (two hooks, two reads in
  flight) and the guard of \<open>showMathChallenge\<close>: session 2 opens at 7020 ms and
  session 1 is taken off the page, its countdown timer still pending. The list
  starts with the end of the first cooldown.
\<close>

theorem flag_cleared_under_session:
  "map (map_option (\<lambda>n. (clock n, flag n, on_page n, length (reads n), waiting n)))
     (drop 15 (snapshots (answered @ double_submit @ second_cooldown) page)) =
     [Some (6200, False, [], 0, [Rearm 0, Scan]),
      Some (6300, False, [], 2, [Rearm 0, Scan]),
      Some (6320, True, [1], 1, [Rearm 0, Scan, Tick 1, FocusFirst 1]),
      Some (6330, True, [1], 0, [Rearm 0, Scan, Tick 1, FocusFirst 1]),
      Some (6620, True, [1], 0, [Rearm 0, Scan, Tick 1]),
      Some (6900, False, [1], 0, [Scan, Tick 1]),
      Some (7000, False, [1], 2, [Scan, Tick 1]),
      Some (7020, True, [2], 1, [Scan, Tick 1, Tick 2, FocusFirst 2])]"
  by (simp add: model_defs input_defs double_submit_def second_cooldown_def generate_problems_numeral)

text \<open>
  For comparison, the two runs in which the code does what the claims above say. With
  one submission the success callback and the replay run once; the replay opens no
  session, because the flag is set when the script clicks the control; after the
  cooldown the flag is cleared and the next click of the user opens a session (one
  session for the two hooks the control has by then). With the storage API missing,
  \<open>loadSettings\<close> resolves at once and the click is stopped before it reaches the
  host. With a reply that carries an error, the promise resolves with the settings
  the module has, and the challenge opens.
\<close>

lemma single_submit_one_replay:
  "map (map_option (\<lambda>n. (clock n, flag n, on_page n, host_clicks n, successes n, replays n)))
     (drop 6 (snapshots (answered @ single_submit) page)) =
     [Some (1900, True, [0], [1], [0], [0]),
      Some (2010, True, [0], [1], [0], [0]),
      Some (2700, True, [], [1], [1], [0]),
      Some (3200, True, [], [2], [1], [1]),
      Some (4010, True, [], [2], [1], [1]),
      Some (6010, True, [], [2], [1], [1]),
      Some (6200, False, [], [2], [1], [1]),
      Some (6300, False, [], [3], [1], [1]),
      Some (6320, True, [1], [3], [1, 0], [1, 0]),
      Some (6330, True, [1], [3], [1, 0], [1, 0])]"
  by (simp add: model_defs input_defs single_submit_def generate_problems_numeral)

lemma offline_click_suppressed:
  "snapshots [At 1000 (Click 0)] offline_page =
     [Some \<lparr>clock = 1000, flag = True, on_page = [0], reads = [], host_clicks = [0],
             successes = [0], replays = [0], waiting = [Scan, Tick 0, FocusFirst 0]\<rparr>]"
  by (simp add: model_defs input_defs offline_page_def generate_problems_numeral)

lemma error_reply_resolves:
  "map (map_option (\<lambda>n. (clock n, flag n, on_page n, reads n)))
     (snapshots error_reply page) =
     [Some (10, False, [], []),
      Some (1000, False, [], [AfterClick 0]),
      Some (1020, True, [0], [])]"
  by (simp add: model_defs input_defs error_reply_def generate_problems_numeral)

text \<open>
  The run \<open>first_click\<close> is no special case. With the storage API present no hook
  stops a click of the user: whatever the settings, the flag and the number of hooks,
  the host receives the click, and no backdrop is added or removed during the
  dispatch.
\<close>

lemma user_hooks_online:
  "chromeStorage s \<Longrightarrow>
   fst (user_hooks n b s) = False \<and> buttons (snd (user_hooks n b s)) = buttons s \<and>
   document (snd (user_hooks n b s)) = document s"
proof (induction n arbitrary: s)
  case 0
  show ?case by simp
next
  case (Suc n)
  show ?case
  proof (cases "challengeActive s")
    case True
    with Suc show ?thesis by simp
  next
    case False
    have "chromeStorage (s\<lparr>pending := pending s @ [AfterClick b]\<rparr>)" using Suc.prems by simp
    from Suc.IH [OF this] False Suc.prems show ?thesis by (simp add: loadSettings_def)
  qed
qed

lemma click_never_suppressed:
  assumes "chromeStorage s" and "b < length (buttons s)"
  shows "delivered (buttons (user_click b s) ! b) = delivered (buttons s ! b) + 1"
    and "document (user_click b s) = document s"
proof -
  obtain st s1 where h: "user_hooks (hooks (buttons s ! b)) b s = (st, s1)"
    by (cases "user_hooks (hooks (buttons s ! b)) b s") auto
  from user_hooks_online [OF assms(1), of "hooks (buttons s ! b)" b] h
  have st: "st = False" and bs: "buttons s1 = buttons s" and dc: "document s1 = document s"
    by simp_all
  show "delivered (buttons (user_click b s) ! b) = delivered (buttons s ! b) + 1"
    using assms(2) by (simp add: user_click_def h st upd_button_def bs)
  show "document (user_click b s) = document s"
    by (simp add: user_click_def h st upd_button_def dc)
qed

section \<open>Countdown expiry\<close>

lemma ivalue_refresh_inputs:
  "length es = length ps \<Longrightarrow> map ivalue (refresh_inputs ps es) = map (\<lambda>q. []) ps"
  by (induction ps es rule: refresh_inputs.induct) auto

lemma fire_eq:
  assumes "timers s = v # vs"
  shows "fire s = Some (run_task (job (earliest v vs))
     (s\<lparr>now := max (now s) (due (earliest v vs)),
        timers := (case period (earliest v vs) of
            None \<Rightarrow> filter (\<lambda>w. handle w \<noteq> handle (earliest v vs)) (timers s)
          | Some d \<Rightarrow> filter (\<lambda>w. handle w \<noteq> handle (earliest v vs)) (timers s) @
              [Timer (handle (earliest v vs)) (due (earliest v vs) + d) (Some d)
                 (job (earliest v vs))])\<rparr>))"
proof -
  have "fire s = (let u = earliest v vs;
              others = filter (\<lambda>w. handle w \<noteq> handle u) (timers s);
              s1 = s\<lparr>now := max (now s) (due u),
                     timers := (case period u of None \<Rightarrow> others
                                | Some d \<Rightarrow> others @ [Timer (handle u) (due u + d) (Some d) (job u)])\<rparr>
          in Some (run_task (job u) s1))"
    unfolding fire_def by (subst assms) (rule list.case)
  then show ?thesis unfolding Let_def .
qed



section \<open>Timers at the exit of a session\<close>

text \<open>
  Once a session has no countdown timer pending it never has one again: the script
  creates a countdown only for a session it is just opening.
\<close>

lemma nt_upd_session [simp]: "no_tick sid (upd_session k f s) = no_tick sid s"
  by (simp add: no_tick_def upd_session_def)

lemma nt_upd_button [simp]: "no_tick sid (upd_button b f s) = no_tick sid s"
  by (simp add: no_tick_def upd_button_def)

lemma nt_fields [simp]:
  "no_tick sid (s\<lparr>challengeActive := ca\<rparr>) = no_tick sid s"
  "no_tick sid (s\<lparr>document := dc\<rparr>) = no_tick sid s"
  "no_tick sid (s\<lparr>buttons := bs\<rparr>) = no_tick sid s"
  "no_tick sid (s\<lparr>pending := pd\<rparr>) = no_tick sid s"
  "no_tick sid (s\<lparr>now := t\<rparr>) = no_tick sid s"
  "no_tick sid (s\<lparr>settings := st\<rparr>) = no_tick sid s"
  "no_tick sid (s\<lparr>rpos := rp\<rparr>) = no_tick sid s"
  "no_tick sid (s\<lparr>chromeStorage := a\<rparr>) = no_tick sid s"
  by (simp_all add: no_tick_def)

lemma nt_setTimeout: "j \<noteq> Tick sid \<Longrightarrow> no_tick sid (setTimeout j d s) = no_tick sid s"
  by (auto simp: no_tick_def setTimeout_def)

lemma nt_setInterval: "j \<noteq> Tick sid \<Longrightarrow> no_tick sid (setInterval j d s) = no_tick sid s"
  by (auto simp: no_tick_def setInterval_def)

lemma nt_clearTimer: "no_tick sid s \<Longrightarrow> no_tick sid (clearTimer h s)"
  by (cases h) (auto simp: no_tick_def clearTimer_def list_all_iff)

lemma nt_move_focus [simp]: "no_tick sid (move_focus k tgt s) = no_tick sid s"
  by (simp add: no_tick_def move_focus_frame)

lemma nt_focus_call [simp]: "no_tick sid (focus_call k i s) = no_tick sid s"
  by (simp add: no_tick_def focus_call_frame)

lemma nt_on_input: "no_tick sid s \<Longrightarrow> no_tick sid (on_input k i v s)"
  unfolding on_input_def Let_def by (simp add: nt_setTimeout nt_clearTimer)

lemma nt_checkAllAnswers: "no_tick sid s \<Longrightarrow> no_tick sid (checkAllAnswers k s)"
  unfolding checkAllAnswers_def Let_def
  by (auto simp: nt_setTimeout nt_clearTimer split: option.splits)

lemma nt_on_enter: "no_tick sid s \<Longrightarrow> no_tick sid (on_enter k i s)"
  unfolding on_enter_def Let_def by (simp add: nt_checkAllAnswers)

lemma nt_on_backdrop: "no_tick sid s \<Longrightarrow> no_tick sid (on_backdrop k s)"
  unfolding on_backdrop_def Let_def by (simp add: nt_clearTimer)

lemma nt_handleTimerExpiration: "no_tick sid s \<Longrightarrow> no_tick sid (handleTimerExpiration k s)"
  unfolding handleTimerExpiration_def Let_def
  by (simp add: nt_setTimeout split: prod.splits)

lemma nt_tick: "no_tick sid s \<Longrightarrow> no_tick sid (tick k s)"
  unfolding tick_def Let_def by (simp add: nt_handleTimerExpiration)

lemma nt_showMathChallenge: "no_tick sid s \<Longrightarrow> no_tick sid (showMathChallenge cs b s)"
  unfolding showMathChallenge_def Let_def
  by (auto simp: no_tick_def setTimeout_def setInterval_def split: prod.splits)

lemma nt_then_callback: "no_tick sid s \<Longrightarrow> no_tick sid (then_callback b s)"
  by (simp add: then_callback_def nt_showMathChallenge)

lemma nt_microtasks: "no_tick sid s \<Longrightarrow> no_tick sid (microtasks k b s)"
  by (induction k arbitrary: s) (simp_all add: nt_then_callback)

lemma nt_loadSettings: "no_tick sid s \<Longrightarrow> loadSettings c s = (r, s1) \<Longrightarrow> no_tick sid s1"
  by (auto simp: loadSettings_def split: if_splits)

lemma nt_script_hooks: "no_tick sid s \<Longrightarrow> script_hooks n b s = (k, s1) \<Longrightarrow> no_tick sid s1"
proof (induction n arbitrary: s k s1)
  case 0
  then show ?case by simp
next
  case (Suc n)
  show ?case
  proof (cases "challengeActive s")
    case True
    with Suc.prems Suc.IH [of s k s1] show ?thesis by simp
  next
    case False
    obtain r s2 where l: "loadSettings (AfterClick b) s = (r, s2)"
      by (cases "loadSettings (AfterClick b) s") auto
    obtain k2 s3 where h: "script_hooks n b s2 = (k2, s3)"
      by (cases "script_hooks n b s2") auto
    from Suc.prems(2) False l h have "s1 = s3" by simp
    with Suc.IH [OF nt_loadSettings [OF Suc.prems(1) l] h] show ?thesis by simp
  qed
qed

lemma nt_user_hooks: "no_tick sid s \<Longrightarrow> user_hooks n b s = (st, s1) \<Longrightarrow> no_tick sid s1"
proof (induction n arbitrary: s st s1)
  case 0
  then show ?case by simp
next
  case (Suc n)
  show ?case
  proof (cases "challengeActive s")
    case True
    with Suc.prems Suc.IH [of s st s1] show ?thesis by simp
  next
    case False
    obtain r s2 where l: "loadSettings (AfterClick b) s = (r, s2)"
      by (cases "loadSettings (AfterClick b) s") auto
    note i2 = nt_loadSettings [OF Suc.prems(1) l]
    show ?thesis
    proof (cases "r \<and> shouldBeActive (settings s2) (getHours s2)")
      case True
      with Suc.prems(2) False l have "s1 = showMathChallenge (settings s2) b s2" by auto
      with i2 show ?thesis by (simp add: nt_showMathChallenge)
    next
      case no: False
      with Suc.prems(2) False l have "user_hooks n b s2 = (st, s1)" by auto
      from Suc.IH [OF i2 this] show ?thesis .
    qed
  qed
qed

lemma nt_user_click: "no_tick sid s \<Longrightarrow> no_tick sid (user_click b s)"
  by (auto simp: user_click_def Let_def split: prod.splits dest: nt_user_hooks)

lemma nt_success_callback: "no_tick sid s \<Longrightarrow> no_tick sid (success_callback k s)"
  unfolding success_callback_def by (simp add: nt_setTimeout)

lemma nt_teardown: "no_tick sid s \<Longrightarrow> no_tick sid (teardown k s)"
  by (simp add: teardown_def nt_success_callback)

lemma nt_replay: "no_tick sid s \<Longrightarrow> no_tick sid (replay k s)"
proof -
  assume i: "no_tick sid s"
  let ?b = "onSuccess (sessions s ! k)"
  let ?s1 = "upd_button ?b (\<lambda>u. u\<lparr>gadiProtected := Some []\<rparr>)
                 (upd_session k (\<lambda>x. x\<lparr>replayCalls := replayCalls x + 1\<rparr>) s)"
  have 1: "no_tick sid ?s1" using i by simp
  obtain m s2 where h: "script_hooks (hooks (buttons ?s1 ! ?b)) ?b ?s1 = (m, s2)"
    by (cases "script_hooks (hooks (buttons ?s1 ! ?b)) ?b ?s1") auto
  have 2: "no_tick sid s2" using nt_script_hooks [OF 1 h] .
  show ?thesis
    unfolding replay_def Let_def h prod.case
    by (intro nt_microtasks) (simp add: nt_setTimeout 2)
qed

lemma nt_run_task: "no_tick sid s \<Longrightarrow> no_tick sid (run_task j s)"
  unfolding run_task_def
  by (cases j)
     (auto simp: findAndProtectSendButtons_def rearm_def nt_tick nt_teardown nt_replay)

lemma nt_storage_reply: "no_tick sid s \<Longrightarrow> no_tick sid (storage_reply k res s)"
  unfolding storage_reply_def Let_def after_init_def
  by (auto split: cont.splits sum.splits
      simp: nt_then_callback nt_setInterval findAndProtectSendButtons_def)

lemma nt_handle_event: "no_tick sid s \<Longrightarrow> handle_event e s = Some s1 \<Longrightarrow> no_tick sid s1"
  unfolding handle_event_def
  by (cases e)
     (auto split: if_splits simp: nt_user_click nt_storage_reply nt_on_input
        nt_on_enter nt_checkAllAnswers nt_on_backdrop loadSettings_def)

lemma nt_fire: "no_tick sid s \<Longrightarrow> fire s = Some s1 \<Longrightarrow> no_tick sid s1"
proof -
  assume i: "no_tick sid s" and f: "fire s = Some s1"
  from f obtain v vs where ts: "timers s = v # vs" by (cases "timers s") (auto simp: fire_def)
  define u where "u = earliest v vs"
  have uin: "u \<in> set (timers s)" using earliest_in [of v vs] by (simp add: u_def ts)
  have ju: "job u \<noteq> Tick sid" using i uin by (auto simp: no_tick_def list_all_iff)
  define s0 where "s0 = s\<lparr>now := max (now s) (due u),
        timers := (case period u of
            None \<Rightarrow> filter (\<lambda>w. handle w \<noteq> handle u) (timers s)
          | Some d \<Rightarrow> filter (\<lambda>w. handle w \<noteq> handle u) (timers s) @
              [Timer (handle u) (due u + d) (Some d) (job u)])\<rparr>"
  have "no_tick sid s0" using i ju
    by (cases "period u") (auto simp: s0_def no_tick_def list_all_iff)
  moreover have "s1 = run_task (job u) s0"
    using f unfolding fire_eq [OF ts] u_def s0_def by simp
  ultimately show ?thesis by (simp add: nt_run_task)
qed

lemma nt_step: "no_tick sid s \<Longrightarrow> step a s = Some s1 \<Longrightarrow> no_tick sid s1"
proof (cases a)
  case Fire
  assume "no_tick sid s" "step a s = Some s1"
  with Fire show ?thesis by (simp add: nt_fire)
next
  case (At t e)
  assume i: "no_tick sid s" and "step a s = Some s1"
  with At have "handle_event e (s\<lparr>now := t\<rparr>) = Some s1" by (simp split: if_splits)
  moreover have "no_tick sid (s\<lparr>now := t\<rparr>)" using i by simp
  ultimately show ?thesis by (rule nt_handle_event [rotated])
qed

lemma nt_run: "no_tick sid s \<Longrightarrow> run tr s = Some s1 \<Longrightarrow> no_tick sid s1"
proof (induction tr arbitrary: s)
  case Nil
  then show ?case by simp
next
  case (Cons a tr)
  from Cons.prems(2) obtain s2 where a: "step a s = Some s2" and r: "run tr s2 = Some s1"
    by (auto split: option.splits)
  from Cons.IH [OF nt_step [OF Cons.prems(1) a] r] show ?case .
qed

lemma clear_interval_no_tick:
  assumes "inv s" and "sid < length (sessions s)"
  shows "no_tick sid (clearTimer (timerInterval (sessions s ! sid)) s)"
proof -
  have t: "fst (static (sessions s ! sid)) = Some (handle w)"
    if "w \<in> set (timers s)" "job w = Tick sid" for w
  proof -
    from assms(1) that(1) have "tick_ok (sessions s) w" by (simp add: inv_def list_all_iff)
    with that(2) show ?thesis by (simp add: tick_ok_def)
  qed
  show ?thesis
  proof (cases "timerInterval (sessions s ! sid)")
    case None
    with t have "job w \<noteq> Tick sid" if "w \<in> set (timers s)" for w
      using that by (auto simp: static_def)
    with assms(2) None show ?thesis by (simp add: no_tick_def clearTimer_def list_all_iff)
  next
    case (Some h)
    with t have "handle w = h" if "w \<in> set (timers s)" "job w = Tick sid" for w
      using that by (auto simp: static_def)
    with assms(2) Some show ?thesis by (auto simp: no_tick_def clearTimer_def list_all_iff)
  qed
qed

text \<open>
  Claim C6, as amended. On the cancel path (a click on the backdrop) and on the pass
  path (\<open>checkAllAnswers\<close> with every answer right), in every reachable state, the
  countdown interval of the session is cleared: no countdown timer of the session is
  pending afterwards, nor after any further run, so no countdown tick or expiry runs
  for a cancelled or passed session.
\<close>

theorem exit_clears_countdown:
  assumes "run tr (startup api bs c0 r) = Some s" and "sid < length (sessions s)"
      and "s1 = on_backdrop sid s \<or>
           (check_loop True (answerInputs (sessions s ! sid)) \<and> s1 = checkAllAnswers sid s)"
      and "run tr1 s1 = Some s2"
  shows "list_all (\<lambda>w. job w \<noteq> Tick sid) (timers s2)"
proof -
  have i: "inv s" by (rule inv_reachable [OF assms(1)])
  note c = clear_interval_no_tick [OF i assms(2)]
  have "no_tick sid s1"
  proof (cases "s1 = on_backdrop sid s")
    case True
    with c show ?thesis by (simp add: on_backdrop_def Let_def)
  next
    case False
    with assms(3) have "check_loop True (answerInputs (sessions s ! sid))"
      and "s1 = checkAllAnswers sid s" by auto
    with c show ?thesis by (simp add: checkAllAnswers_def nt_setTimeout)
  qed
  from nt_run [OF this assms(4)] show ?thesis by (simp add: no_tick_def)
qed

theorem exit_clears_countdown_witness:
  "run answered page = Some (the (run answered page)) \<and>
   0 < length (sessions (the (run answered page))) \<and>
   map job (timers (the (run answered page))) = [Scan, Tick 0] \<and>
   run [Fire] (on_backdrop 0 (the (run answered page))) =
     Some (the (run [Fire] (on_backdrop 0 (the (run answered page))))) \<and>
   list_all (\<lambda>w. job w \<noteq> Tick 0)
     (timers (the (run [Fire] (on_backdrop 0 (the (run answered page)))))) \<and>
   check_loop True (answerInputs (sessions (the (run answered page)) ! 0)) \<and>
   run [Fire] (checkAllAnswers 0 (the (run answered page))) =
     Some (the (run [Fire] (checkAllAnswers 0 (the (run answered page))))) \<and>
   list_all (\<lambda>w. job w \<noteq> Tick 0)
     (timers (the (run [Fire] (checkAllAnswers 0 (the (run answered page))))))"
proof -
  let ?s = "the (run answered page)"
  have a: "run answered page = Some ?s"
    by (simp add: model_defs input_defs generate_problems_numeral)
  have b: "0 < length (sessions ?s)"
    by (simp add: model_defs input_defs generate_problems_numeral)
  have c: "map job (timers ?s) = [Scan, Tick 0]"
    by (simp add: model_defs input_defs generate_problems_numeral)
  have d: "run [Fire] (on_backdrop 0 ?s) = Some (the (run [Fire] (on_backdrop 0 ?s)))"
    by (simp add: model_defs input_defs generate_problems_numeral)
  have e: "check_loop True (answerInputs (sessions ?s ! 0))"
    by (simp add: model_defs input_defs generate_problems_numeral)
  have f: "run [Fire] (checkAllAnswers 0 ?s) = Some (the (run [Fire] (checkAllAnswers 0 ?s)))"
    by (simp add: model_defs input_defs generate_problems_numeral)
  have g: "on_backdrop 0 ?s = on_backdrop 0 ?s \<or>
      (check_loop True (answerInputs (sessions ?s ! 0)) \<and> on_backdrop 0 ?s = checkAllAnswers 0 ?s)"
    by simp
  have h: "checkAllAnswers 0 ?s = on_backdrop 0 ?s \<or>
      (check_loop True (answerInputs (sessions ?s ! 0)) \<and>
       checkAllAnswers 0 ?s = checkAllAnswers 0 ?s)"
    using e by simp
  from exit_clears_countdown [OF a [unfolded page_def] b [unfolded page_def]
         g [unfolded page_def] d [unfolded page_def]]
       exit_clears_countdown [OF a [unfolded page_def] b [unfolded page_def]
         h [unfolded page_def] f [unfolded page_def]]
  show ?thesis using a b c d e f unfolding page_def [symmetric] by simp
qed

text \<open>
  Claim C6, as stated, fails for the debounce timers. In the run \<open>cancelled\<close> the user
  types at 1500 ms, which sets the debounce timeout of the input, and dismisses the
  challenge at 1600 ms. The click on the backdrop clears the countdown and takes the
  session off the page; the debounce timeout stays pending and fires at 1800 ms: its
  callback, \<open>validateInput\<close>, turns the border of the input of the torn-down session
  from the focus colour to the colour of a wrong answer.
\<close>

theorem debounce_survives_cancel:
  "map (map_option on_page) (snapshots cancelled page) =
     [Some [], Some [], Some [0], Some [0], Some [0], Some [], Some []] \<and>
   map (map_option waiting) (snapshots cancelled page) =
     [Some [Scan], Some [Scan], Some [Scan, Tick 0, FocusFirst 0], Some [Scan, Tick 0],
      Some [Scan, Tick 0, Validate 0 0], Some [Scan, Validate 0 0], Some [Scan]] \<and>
   map_option (input_borders 0) (run typed_wrong page) = Some [Focused] \<and>
   map_option (input_borders 0) (run cancelled page) = Some [Bad]"
  by (simp add: model_defs input_defs typed_wrong_def cancelled_def input_borders_def
      generate_problems_numeral)

section \<open>One backdrop at a time, and the two guards\<close>

text \<open>
  \<open>showMathChallenge\<close> removes the backdrop it finds before it adds its own, so no
  reachable state has two backdrops on the page.
\<close>

lemma ob_upd_session [simp]: "one_backdrop (upd_session k f s) = one_backdrop s"
  by (simp add: one_backdrop_def upd_session_def)

lemma ob_upd_button [simp]: "one_backdrop (upd_button b f s) = one_backdrop s"
  by (simp add: one_backdrop_def upd_button_def)

lemma ob_fields [simp]:
  "one_backdrop (s\<lparr>challengeActive := ca\<rparr>) = one_backdrop s"
  "one_backdrop (s\<lparr>timers := ts\<rparr>) = one_backdrop s"
  "one_backdrop (s\<lparr>buttons := bs\<rparr>) = one_backdrop s"
  "one_backdrop (s\<lparr>pending := pd\<rparr>) = one_backdrop s"
  "one_backdrop (s\<lparr>now := t\<rparr>) = one_backdrop s"
  "one_backdrop (s\<lparr>settings := st\<rparr>) = one_backdrop s"
  "one_backdrop (s\<lparr>rpos := rp\<rparr>) = one_backdrop s"
  "one_backdrop (s\<lparr>chromeStorage := a\<rparr>) = one_backdrop s"
  by (simp_all add: one_backdrop_def)

lemma ob_setTimeout [simp]: "one_backdrop (setTimeout j d s) = one_backdrop s"
  by (simp add: one_backdrop_def setTimeout_def)

lemma ob_setInterval [simp]: "one_backdrop (setInterval j d s) = one_backdrop s"
  by (simp add: one_backdrop_def setInterval_def)

lemma ob_clearTimer [simp]: "one_backdrop (clearTimer h s) = one_backdrop s"
  by (cases h) (simp_all add: one_backdrop_def clearTimer_def)

lemma ob_move_focus [simp]: "one_backdrop (move_focus k tgt s) = one_backdrop s"
  by (simp add: one_backdrop_def move_focus_frame)

lemma ob_focus_call [simp]: "one_backdrop (focus_call k i s) = one_backdrop s"
  by (simp add: one_backdrop_def focus_call_frame)

lemma ob_on_input [simp]: "one_backdrop (on_input k i v s) = one_backdrop s"
  unfolding on_input_def Let_def by simp

lemma ob_checkAllAnswers [simp]: "one_backdrop (checkAllAnswers k s) = one_backdrop s"
  unfolding checkAllAnswers_def Let_def by (simp split: option.splits)

lemma ob_on_enter [simp]: "one_backdrop (on_enter k i s) = one_backdrop s"
  unfolding on_enter_def Let_def by simp

lemma ob_remove:
  assumes "one_backdrop s"
  shows "one_backdrop (s\<lparr>document := removeAll k (document s)\<rparr>)"
proof -
  have "length (removeAll k (document s)) \<le> length (document s)"
    by (simp add: removeAll_filter_not_eq)
  also have "\<dots> \<le> 1" using assms by (simp add: one_backdrop_def)
  finally show ?thesis by (simp add: one_backdrop_def)
qed

lemma ob_on_backdrop: "one_backdrop s \<Longrightarrow> one_backdrop (on_backdrop k s)"
proof -
  assume "one_backdrop s"
  then have "one_backdrop (clearTimer (timerInterval (sessions s ! k)) s)" by simp
  from ob_remove [OF this, of k] show ?thesis by (simp add: on_backdrop_def Let_def)
qed

lemma ob_handleTimerExpiration [simp]:
  "one_backdrop (handleTimerExpiration k s) = one_backdrop s"
  unfolding handleTimerExpiration_def Let_def by (simp split: prod.splits)

lemma ob_tick [simp]: "one_backdrop (tick k s) = one_backdrop s"
  unfolding tick_def Let_def by simp

lemma ob_showMathChallenge: "one_backdrop s \<Longrightarrow> one_backdrop (showMathChallenge cs b s)"
  unfolding showMathChallenge_def Let_def
  by (auto simp: one_backdrop_def setTimeout_def setInterval_def split: prod.splits)

lemma ob_then_callback: "one_backdrop s \<Longrightarrow> one_backdrop (then_callback b s)"
  by (simp add: then_callback_def ob_showMathChallenge)

lemma ob_microtasks: "one_backdrop s \<Longrightarrow> one_backdrop (microtasks k b s)"
  by (induction k arbitrary: s) (simp_all add: ob_then_callback)

lemma ob_loadSettings: "one_backdrop s \<Longrightarrow> loadSettings c s = (r, s1) \<Longrightarrow> one_backdrop s1"
  by (auto simp: loadSettings_def split: if_splits)

lemma ob_script_hooks:
  "one_backdrop s \<Longrightarrow> script_hooks n b s = (k, s1) \<Longrightarrow> one_backdrop s1"
proof (induction n arbitrary: s k s1)
  case 0
  then show ?case by simp
next
  case (Suc n)
  show ?case
  proof (cases "challengeActive s")
    case True
    with Suc.prems Suc.IH [of s k s1] show ?thesis by simp
  next
    case False
    obtain r s2 where l: "loadSettings (AfterClick b) s = (r, s2)"
      by (cases "loadSettings (AfterClick b) s") auto
    obtain k2 s3 where h: "script_hooks n b s2 = (k2, s3)"
      by (cases "script_hooks n b s2") auto
    from Suc.prems(2) False l h have "s1 = s3" by simp
    with Suc.IH [OF ob_loadSettings [OF Suc.prems(1) l] h] show ?thesis by simp
  qed
qed

lemma ob_user_hooks:
  "one_backdrop s \<Longrightarrow> user_hooks n b s = (st, s1) \<Longrightarrow> one_backdrop s1"
proof (induction n arbitrary: s st s1)
  case 0
  then show ?case by simp
next
  case (Suc n)
  show ?case
  proof (cases "challengeActive s")
    case True
    with Suc.prems Suc.IH [of s st s1] show ?thesis by simp
  next
    case False
    obtain r s2 where l: "loadSettings (AfterClick b) s = (r, s2)"
      by (cases "loadSettings (AfterClick b) s") auto
    note i2 = ob_loadSettings [OF Suc.prems(1) l]
    show ?thesis
    proof (cases "r \<and> shouldBeActive (settings s2) (getHours s2)")
      case True
      with Suc.prems(2) False l have "s1 = showMathChallenge (settings s2) b s2" by auto
      with i2 show ?thesis by (simp add: ob_showMathChallenge)
    next
      case no: False
      with Suc.prems(2) False l have "user_hooks n b s2 = (st, s1)" by auto
      from Suc.IH [OF i2 this] show ?thesis .
    qed
  qed
qed

lemma ob_user_click: "one_backdrop s \<Longrightarrow> one_backdrop (user_click b s)"
  by (auto simp: user_click_def Let_def split: prod.splits dest: ob_user_hooks)

lemma ob_teardown: "one_backdrop s \<Longrightarrow> one_backdrop (teardown k s)"
  using ob_remove [of s k] by (simp add: teardown_def success_callback_def)

lemma ob_replay: "one_backdrop s \<Longrightarrow> one_backdrop (replay k s)"
proof -
  assume i: "one_backdrop s"
  let ?b = "onSuccess (sessions s ! k)"
  let ?s1 = "upd_button ?b (\<lambda>u. u\<lparr>gadiProtected := Some []\<rparr>)
                 (upd_session k (\<lambda>x. x\<lparr>replayCalls := replayCalls x + 1\<rparr>) s)"
  have 1: "one_backdrop ?s1" using i by simp
  obtain m s2 where h: "script_hooks (hooks (buttons ?s1 ! ?b)) ?b ?s1 = (m, s2)"
    by (cases "script_hooks (hooks (buttons ?s1 ! ?b)) ?b ?s1") auto
  have 2: "one_backdrop s2" using ob_script_hooks [OF 1 h] .
  show ?thesis
    unfolding replay_def Let_def h prod.case
    by (intro ob_microtasks) (simp add: 2)
qed

lemma ob_run_task: "one_backdrop s \<Longrightarrow> one_backdrop (run_task j s)"
  unfolding run_task_def
  by (cases j)
     (auto simp: findAndProtectSendButtons_def rearm_def ob_teardown ob_replay)

lemma ob_storage_reply: "one_backdrop s \<Longrightarrow> one_backdrop (storage_reply k res s)"
  unfolding storage_reply_def Let_def after_init_def
  by (auto split: cont.splits sum.splits simp: ob_then_callback findAndProtectSendButtons_def)

lemma ob_handle_event:
  "one_backdrop s \<Longrightarrow> handle_event e s = Some s1 \<Longrightarrow> one_backdrop s1"
  unfolding handle_event_def
  by (cases e)
     (auto split: if_splits simp: ob_user_click ob_storage_reply ob_on_backdrop loadSettings_def)

lemma ob_fire: "one_backdrop s \<Longrightarrow> fire s = Some s1 \<Longrightarrow> one_backdrop s1"
proof -
  assume i: "one_backdrop s" and f: "fire s = Some s1"
  from f obtain v vs where ts: "timers s = v # vs" by (cases "timers s") (auto simp: fire_def)
  from f show ?thesis unfolding fire_eq [OF ts] using i by (auto simp: ob_run_task)
qed

lemma ob_step: "one_backdrop s \<Longrightarrow> step a s = Some s1 \<Longrightarrow> one_backdrop s1"
proof (cases a)
  case Fire
  assume "one_backdrop s" "step a s = Some s1"
  with Fire show ?thesis by (simp add: ob_fire)
next
  case (At t e)
  assume i: "one_backdrop s" and "step a s = Some s1"
  with At have "handle_event e (s\<lparr>now := t\<rparr>) = Some s1" by (simp split: if_splits)
  moreover have "one_backdrop (s\<lparr>now := t\<rparr>)" using i by simp
  ultimately show ?thesis by (rule ob_handle_event [rotated])
qed

lemma ob_run: "one_backdrop s \<Longrightarrow> run tr s = Some s1 \<Longrightarrow> one_backdrop s1"
proof (induction tr arbitrary: s)
  case Nil
  then show ?case by simp
next
  case (Cons a tr)
  from Cons.prems(2) obtain s2 where a: "step a s = Some s2" and r: "run tr s2 = Some s1"
    by (auto split: option.splits)
  from Cons.IH [OF ob_step [OF Cons.prems(1) a] r] show ?case .
qed

lemma ob_startup: "one_backdrop (startup api bs c0 r)"
  by (cases api)
     (simp_all add: startup_def Let_def loadSettings_def after_init_def
        findAndProtectSendButtons_def, simp_all add: one_backdrop_def)

lemma at_most_one_backdrop:
  "run tr (startup api bs c0 r) = Some s \<Longrightarrow> length (document s) \<le> 1"
  using ob_run [OF ob_startup] by (simp add: one_backdrop_def)

text \<open>The guards: with the flag set, a click starts no load and opens no session.\<close>

lemma user_hooks_flag: "challengeActive s \<Longrightarrow> user_hooks n b s = (False, s)"
  by (induction n) simp_all

lemma click_while_flag:
  "challengeActive s \<Longrightarrow>
   user_click b s = upd_button b (\<lambda>u. u\<lparr>delivered := delivered u + 1\<rparr>) s"
  by (simp add: user_click_def user_hooks_flag)

lemma showMathChallenge_while_flag: "challengeActive s \<Longrightarrow> showMathChallenge cs b s = s"
  by (simp add: showMathChallenge_def)

end
